theory Spec2Isabelle
  imports Complex_Main "HOL-Library.AList"
begin

section \<open>JSON values and JavaScript operators\<close>

text \<open>
  Every collection of the server (\<^verbatim>\<open>cars.json\<close>, \<^verbatim>\<open>setups.json\<close>, ...) is a JSON
  array of objects, and every request body is a JSON object. A value read from a file or
  from a request is one of the six JSON kinds; JavaScript's \<^verbatim>\<open>undefined\<close> (the value
  of a property that is not there) is \<open>None\<close> of \<open>jval option\<close>. A number is the
  real number that the parsed value stands for; the routes store numbers, compare them and
  test them for zero, and where one becomes a property key it is printed by the runtime
  (section Import).
\<close>

datatype jval =
    JNull
  | JBool bool
  | JNum real
  | JStr string
  | JArr "jval list"
  | JObj "(string \<times> jval) list"

text \<open>An object is its list of properties in insertion order, keys distinct.\<close>

type_synonym obj = "(string \<times> jval) list"

definition field :: "obj \<Rightarrow> string \<Rightarrow> jval option" where
  \<comment> \<open>\<^verbatim>\<open>r.k\<close>\<close>
  "field r k = map_of r k"

fun truthy :: "jval option \<Rightarrow> bool" where
  "truthy None = False"
| "truthy (Some JNull) = False"
| "truthy (Some (JBool b)) = b"
| "truthy (Some (JNum n)) = (n \<noteq> 0)"
| "truthy (Some (JStr s)) = (s \<noteq> [])"
| "truthy (Some (JArr xs)) = True"
| "truthy (Some (JObj ps)) = True"

fun primitive :: "jval option \<Rightarrow> bool" where
  "primitive (Some (JArr xs)) = False"
| "primitive (Some (JObj ps)) = False"
| "primitive v = True"

definition strict_eq :: "jval option \<Rightarrow> jval option \<Rightarrow> bool" where
  \<comment> \<open>\<^verbatim>\<open>a === b\<close>, also the comparison of \<^verbatim>\<open>includes\<close> and \<^verbatim>\<open>Set.has\<close>. Arrays and
      objects are compared by reference: two that come from two parses (two files, or a
      file and a request) are never the same. Where the ids of the records of one file
      are compared with each other, the ids are the strings that \<^verbatim>\<open>uuidv4()\<close> returned
      when the server stored the records.\<close>
  "strict_eq a b = (a = b \<and> primitive a)"

definition js_includes :: "jval option list \<Rightarrow> jval option \<Rightarrow> bool" where
  \<comment> \<open>\<^verbatim>\<open>xs.includes(v)\<close>, \<^verbatim>\<open>new Set(xs).has(v)\<close>\<close>
  "js_includes xs v = list_ex (\<lambda>x. strict_eq x v) xs"

definition has_id_of :: "obj list \<Rightarrow> obj \<Rightarrow> bool" where
  \<comment> \<open>\<^verbatim>\<open>sel.map(r => r.id).includes(s.id)\<close>, where \<open>sel\<close> and \<open>s\<close> are records of the same
      array: true of the records of \<open>sel\<close> themselves, and of a record whose id is a
      string, a number, ... equal to the id of one of them.\<close>
  "has_id_of sel s = (s \<in> set sel \<or> js_includes (map (\<lambda>r. field r ''id'') sel) (field s ''id''))"

definition or_else :: "jval option \<Rightarrow> jval option \<Rightarrow> jval option" where
  \<comment> \<open>\<^verbatim>\<open>a || b\<close>\<close>
  "or_else a b = (if truthy a then a else b)"

fun nullish :: "jval option \<Rightarrow> jval option \<Rightarrow> jval option" where
  \<comment> \<open>\<^verbatim>\<open>a ?? b\<close>\<close>
  "nullish None b = b"
| "nullish (Some JNull) b = b"
| "nullish a b = a"

definition set_field :: "string \<Rightarrow> jval option \<Rightarrow> obj \<Rightarrow> obj" where
  \<comment> \<open>\<^verbatim>\<open>{ ...r, k: v }\<close> as it is written to the file and sent in the response: a
      property whose value is \<^verbatim>\<open>undefined\<close> is left out by \<^verbatim>\<open>JSON.stringify\<close>.\<close>
  "set_field k v r = (case v of None \<Rightarrow> AList.delete k r | Some x \<Rightarrow> AList.update k x r)"

fun spread :: "obj \<Rightarrow> obj \<Rightarrow> obj" where
  \<comment> \<open>\<^verbatim>\<open>{ ...r, ...b }\<close>: every property of \<open>b\<close> is assigned on a copy of \<open>r\<close>, in order\<close>
  "spread r [] = r"
| "spread r ((k, v) # b) = spread (AList.update k v r) b"

subsection \<open>Array operations of the routes\<close>

fun splice_first :: "('a \<Rightarrow> bool) \<Rightarrow> 'a list \<Rightarrow> 'a list" where
  \<comment> \<open>\<^verbatim>\<open>i = xs.findIndex(P); xs.splice(i, 1)\<close> when an index is found\<close>
  "splice_first P [] = []"
| "splice_first P (x # xs) = (if P x then xs else x # splice_first P xs)"

fun assign_first :: "('a \<Rightarrow> bool) \<Rightarrow> ('a \<Rightarrow> 'a) \<Rightarrow> 'a list \<Rightarrow> 'a list" where
  \<comment> \<open>\<^verbatim>\<open>i = xs.findIndex(P); xs[i] = f(xs[i])\<close> when an index is found\<close>
  "assign_first P f [] = []"
| "assign_first P f (x # xs) = (if P x then f x # xs else x # assign_first P f xs)"

section \<open>The stored collections\<close>

text \<open>
  One JSON file per entity kind. The store is the parsed content of the eight files, as
  \<^verbatim>\<open>readJsonFile\<close> returns it; \<^verbatim>\<open>writeJsonFile\<close> replaces one of them whole.
\<close>

record store =
  users :: "obj list"
  cars :: "obj list"
  setups :: "obj list"
  tracks :: "obj list"
  sessions :: "obj list"
  cornerNotes :: "obj list"
  trackNotes :: "obj list"
  maintenance :: "obj list"

text \<open>
  The routes answer with an HTTP status. The error statuses are \<open>BadRequest\<close> (400, the
  validation error), \<open>Unauthorized\<close> (401, the authentication error), \<open>NotFound\<close> (404)
  and \<open>ServerError\<close> (500); \<open>Unhandled\<close> is an exception that no route catches, raised
  before anything is written; the successes are \<open>Ok\<close> (200), \<open>Created\<close> (201) and
  \<open>NoContent\<close> (204).
\<close>

datatype error = BadRequest | Unauthorized | NotFound | ServerError | Unhandled

datatype reply = Ok jval | Created jval | NoContent

type_synonym response = "error + reply"

definition is_record :: "string \<Rightarrow> string \<Rightarrow> obj \<Rightarrow> bool" where
  \<comment> \<open>\<^verbatim>\<open>c => c.id === req.params.id && c.userId === req.session.userId\<close>\<close>
  "is_record rid uid c =
     (strict_eq (field c ''id'') (Some (JStr rid)) \<and> strict_eq (field c ''userId'') (Some (JStr uid)))"

definition refers :: "string \<Rightarrow> string \<Rightarrow> string \<Rightarrow> obj \<Rightarrow> bool" where
  \<comment> \<open>\<^verbatim>\<open>s => s.carId === req.params.id && s.userId === req.session.userId\<close>, for the
      foreign key \<open>fk\<close>\<close>
  "refers fk rid uid s =
     (strict_eq (field s fk) (Some (JStr rid)) \<and> strict_eq (field s ''userId'') (Some (JStr uid)))"

definition owner_is :: "string \<Rightarrow> obj \<Rightarrow> bool" where
  \<comment> \<open>\<^verbatim>\<open>c => c.userId === userId\<close>\<close>
  "owner_is uid c = strict_eq (field c ''userId'') (Some (JStr uid))"

subsection \<open>The three operations on one record, as every entity kind has them\<close>

text \<open>
  The routes of the seven entity kinds repeat the same code on their own file; the shared
  part is written once here and instantiated per kind below. \<open>uid\<close> is
  \<^verbatim>\<open>req.session.userId\<close> of the authenticated caller (\<^verbatim>\<open>requireAuth\<close> has let the
  request through), \<open>rid\<close> is \<^verbatim>\<open>req.params.id\<close>, \<open>body\<close> is \<^verbatim>\<open>req.body\<close>.
\<close>

definition get_record :: "obj list \<Rightarrow> string \<Rightarrow> string \<Rightarrow> response" where
  \<comment> \<open>\<^verbatim>\<open>xs.find(...)\<close>, 404 when nothing is found\<close>
  "get_record xs uid rid =
     (case List.find (is_record rid uid) xs of
        None \<Rightarrow> Inl NotFound
      | Some c \<Rightarrow> Inr (Ok (JObj c)))"

definition put_record :: "(obj \<Rightarrow> obj) \<Rightarrow> obj list \<Rightarrow> string \<Rightarrow> string \<Rightarrow> response \<times> obj list" where
  \<comment> \<open>\<^verbatim>\<open>index = xs.findIndex(...)\<close>, 404 when it is -1, else \<^verbatim>\<open>xs[index] = f(xs[index])\<close>\<close>
  "put_record f xs uid rid =
     (case List.find (is_record rid uid) xs of
        None \<Rightarrow> (Inl NotFound, xs)
      | Some c \<Rightarrow> (Inr (Ok (JObj (f c))), assign_first (is_record rid uid) f xs))"

definition delete_record :: "obj list \<Rightarrow> string \<Rightarrow> string \<Rightarrow> response \<times> obj list" where
  \<comment> \<open>\<^verbatim>\<open>index = xs.findIndex(...)\<close>, 404 when it is -1, else \<^verbatim>\<open>xs.splice(index, 1)\<close>\<close>
  "delete_record xs uid rid =
     (if \<not> list_ex (is_record rid uid) xs then (Inl NotFound, xs)
      else (Inr NoContent, splice_first (is_record rid uid) xs))"

definition coalesce_fields :: "string list \<Rightarrow> obj \<Rightarrow> obj \<Rightarrow> obj" where
  \<comment> \<open>\<^verbatim>\<open>{ ...c, k1: body.k1 ?? c.k1, k2: body.k2 ?? c.k2, ... }\<close>\<close>
  "coalesce_fields ks body c = fold (\<lambda>k r. set_field k (nullish (field body k) (field c k)) r) ks c"

definition merge_body :: "obj \<Rightarrow> obj \<Rightarrow> obj" where
  \<comment> \<open>\<^verbatim>\<open>{ ...c, ...body, id: c.id, userId: c.userId }\<close>\<close>
  "merge_body body c =
     set_field ''userId'' (field c ''userId'') (set_field ''id'' (field c ''id'') (spread c body))"

section \<open>Cars\<close>

definition get_car :: "string \<Rightarrow> string \<Rightarrow> store \<Rightarrow> response" where
  \<comment> \<open>\<^verbatim>\<open>GET /api/cars/:id\<close>\<close>
  "get_car uid rid st = get_record (cars st) uid rid"

definition put_car :: "string \<Rightarrow> string \<Rightarrow> obj \<Rightarrow> store \<Rightarrow> response \<times> store" where
  \<comment> \<open>\<^verbatim>\<open>PUT /api/cars/:id\<close>\<close>
  "put_car uid rid body st =
     (case put_record (coalesce_fields [''name'', ''manufacturer'', ''series''] body) (cars st) uid rid of
        (r, xs) \<Rightarrow> (r, st\<lparr>cars := xs\<rparr>))"

definition delete_car :: "string \<Rightarrow> string \<Rightarrow> store \<Rightarrow> response \<times> store" where
  \<comment> \<open>\<^verbatim>\<open>DELETE /api/cars/:id\<close>\<close>
  "delete_car uid rid st =
     (if \<not> list_ex (is_record rid uid) (cars st) then (Inl NotFound, st)
      else (Inr NoContent,
        st\<lparr>cars := splice_first (is_record rid uid) (cars st),
           setups := filter (\<lambda>s. \<not> refers ''carId'' rid uid s) (setups st),
           trackNotes := filter (\<lambda>tn. \<not> refers ''carId'' rid uid tn) (trackNotes st),
           maintenance := filter (\<lambda>m. \<not> refers ''carId'' rid uid m) (maintenance st)\<rparr>))"

section \<open>Setups\<close>

definition get_setup :: "string \<Rightarrow> string \<Rightarrow> store \<Rightarrow> response" where
  \<comment> \<open>\<^verbatim>\<open>GET /api/setups/:id\<close>\<close>
  "get_setup uid rid st = get_record (setups st) uid rid"

definition put_setup :: "string \<Rightarrow> string \<Rightarrow> obj \<Rightarrow> store \<Rightarrow> response \<times> store" where
  \<comment> \<open>\<^verbatim>\<open>PUT /api/setups/:id\<close>\<close>
  "put_setup uid rid body st =
     (case put_record (merge_body body) (setups st) uid rid of
        (r, xs) \<Rightarrow> (r, st\<lparr>setups := xs\<rparr>))"

definition delete_setup :: "string \<Rightarrow> string \<Rightarrow> store \<Rightarrow> response \<times> store" where
  \<comment> \<open>\<^verbatim>\<open>DELETE /api/setups/:id\<close>\<close>
  "delete_setup uid rid st =
     (case delete_record (setups st) uid rid of (r, xs) \<Rightarrow> (r, st\<lparr>setups := xs\<rparr>))"

section \<open>Tracks\<close>

definition get_track :: "string \<Rightarrow> string \<Rightarrow> store \<Rightarrow> response" where
  \<comment> \<open>\<^verbatim>\<open>GET /api/tracks/:id\<close>\<close>
  "get_track uid rid st = get_record (tracks st) uid rid"

definition starts_with :: "string \<Rightarrow> string \<Rightarrow> bool" where
  \<comment> \<open>\<^verbatim>\<open>s.startsWith(p)\<close>\<close>
  "starts_with p s = (take (length p) s = p)"

definition track_image ::
  "(string \<Rightarrow> string \<Rightarrow> string option) \<Rightarrow> string \<Rightarrow> jval option \<Rightarrow> jval option \<Rightarrow> jval option option" where
  \<comment> \<open>The \<^verbatim>\<open>imageUrl\<close> of \<^verbatim>\<open>PUT /api/tracks/:id\<close>. \<open>download url rid\<close> is
      \<^verbatim>\<open>downloadTrackImage\<close>: the local URL, or \<open>None\<close> when the download is rejected.
      A truthy \<^verbatim>\<open>req.body.imageUrl\<close> that is no string has no \<^verbatim>\<open>startsWith\<close>: the
      route throws (the outer \<open>None\<close>).\<close>
  "track_image download rid new old =
     (if truthy new then
        (case new of
           Some (JStr url) \<Rightarrow>
             if \<not> starts_with ''/images/'' url \<and> \<not> strict_eq new old
             then Some (case download url rid of Some local \<Rightarrow> Some (JStr local) | None \<Rightarrow> new)
             else Some (nullish new old)
         | _ \<Rightarrow> None)
      else Some (nullish new old))"

definition track_update :: "obj \<Rightarrow> jval option \<Rightarrow> obj \<Rightarrow> obj" where
  \<comment> \<open>the object assigned to \<^verbatim>\<open>tracks[index]\<close>\<close>
  "track_update body imageUrl t =
     set_field ''circuitNotes''
       (nullish (nullish (field body ''circuitNotes'') (field t ''circuitNotes'')) (Some (JStr [])))
     (set_field ''corners''
       (nullish (nullish (field body ''corners'') (field t ''corners'')) (Some (JArr [])))
     (set_field ''imageUrl'' imageUrl
     (coalesce_fields [''name'', ''location'', ''length''] body t)))"

definition put_track ::
  "(string \<Rightarrow> string \<Rightarrow> string option) \<Rightarrow> string \<Rightarrow> string \<Rightarrow> obj \<Rightarrow> store \<Rightarrow> response \<times> store" where
  \<comment> \<open>\<^verbatim>\<open>PUT /api/tracks/:id\<close>\<close>
  "put_track download uid rid body st =
     (case List.find (is_record rid uid) (tracks st) of
        None \<Rightarrow> (Inl NotFound, st)
      | Some t \<Rightarrow>
          (case track_image download rid (field body ''imageUrl'') (field t ''imageUrl'') of
             None \<Rightarrow> (Inl Unhandled, st)
           | Some imageUrl \<Rightarrow>
               (Inr (Ok (JObj (track_update body imageUrl t))),
                st\<lparr>tracks := assign_first (is_record rid uid) (track_update body imageUrl) (tracks st)\<rparr>)))"

definition delete_track :: "string \<Rightarrow> string \<Rightarrow> store \<Rightarrow> response \<times> store" where
  \<comment> \<open>\<^verbatim>\<open>DELETE /api/tracks/:id\<close>\<close>
  "delete_track uid rid st =
     (if \<not> list_ex (is_record rid uid) (tracks st) then (Inl NotFound, st)
      else (Inr NoContent,
        st\<lparr>tracks := splice_first (is_record rid uid) (tracks st),
           trackNotes := filter (\<lambda>tn. \<not> refers ''trackId'' rid uid tn) (trackNotes st),
           setups := map (\<lambda>s. if refers ''trackId'' rid uid s
                               then set_field ''trackId'' (Some JNull) s else s) (setups st)\<rparr>))"

section \<open>Track notes\<close>

definition get_track_note :: "string \<Rightarrow> string \<Rightarrow> store \<Rightarrow> response" where
  \<comment> \<open>\<^verbatim>\<open>GET /api/track-notes/:id\<close>\<close>
  "get_track_note uid rid st = get_record (trackNotes st) uid rid"

definition put_track_note :: "string \<Rightarrow> string \<Rightarrow> obj \<Rightarrow> store \<Rightarrow> response \<times> store" where
  \<comment> \<open>\<^verbatim>\<open>PUT /api/track-notes/:id\<close>\<close>
  "put_track_note uid rid body st =
     (case put_record (coalesce_fields [''carId'', ''trackId'', ''notes''] body) (trackNotes st) uid rid of
        (r, xs) \<Rightarrow> (r, st\<lparr>trackNotes := xs\<rparr>))"

definition delete_track_note :: "string \<Rightarrow> string \<Rightarrow> store \<Rightarrow> response \<times> store" where
  \<comment> \<open>\<^verbatim>\<open>DELETE /api/track-notes/:id\<close>\<close>
  "delete_track_note uid rid st =
     (case delete_record (trackNotes st) uid rid of (r, xs) \<Rightarrow> (r, st\<lparr>trackNotes := xs\<rparr>))"

section \<open>Corner notes\<close>

definition get_corner_note :: "string \<Rightarrow> string \<Rightarrow> store \<Rightarrow> response" where
  \<comment> \<open>\<^verbatim>\<open>GET /api/corner-notes/:id\<close>\<close>
  "get_corner_note uid rid st = get_record (cornerNotes st) uid rid"

definition same_corner :: "string \<Rightarrow> jval option \<Rightarrow> jval option \<Rightarrow> obj \<Rightarrow> bool" where
  \<comment> \<open>\<^verbatim>\<open>cn => cn.sessionId === sessionId && cn.cornerName === cornerName
      && cn.userId === req.session.userId\<close>\<close>
  "same_corner uid sessionId cornerName cn =
     (strict_eq (field cn ''sessionId'') sessionId \<and> strict_eq (field cn ''cornerName'') cornerName
      \<and> strict_eq (field cn ''userId'') (Some (JStr uid)))"

definition corner_fields :: "jval option list" where
  \<comment> \<open>\<^verbatim>\<open>['entry', 'apex', 'exit']\<close>\<close>
  "corner_fields = [Some (JStr ''entry''), Some (JStr ''apex''), Some (JStr ''exit'')]"

definition set_corner_field :: "jval option \<Rightarrow> jval option \<Rightarrow> obj \<Rightarrow> obj" where
  \<comment> \<open>\<^verbatim>\<open>if (field && ['entry', 'apex', 'exit'].includes(field)) cn[field] = value || ''\<close>\<close>
  "set_corner_field fld val cn =
     (if truthy fld \<and> js_includes corner_fields fld
      then (case fld of Some (JStr k) \<Rightarrow> set_field k (or_else val (Some (JStr []))) cn | _ \<Rightarrow> cn)
      else cn)"

definition corner_text :: "string \<Rightarrow> jval option \<Rightarrow> jval option \<Rightarrow> jval" where
  \<comment> \<open>\<^verbatim>\<open>field === k ? (value || '') : ''\<close>\<close>
  "corner_text k fld val =
     (if strict_eq fld (Some (JStr k))
      then (case or_else val (Some (JStr [])) of Some v \<Rightarrow> v | None \<Rightarrow> JStr [])
      else JStr [])"

definition new_corner_note :: "string \<Rightarrow> string \<Rightarrow> jval \<Rightarrow> jval \<Rightarrow> jval option \<Rightarrow> jval option \<Rightarrow> obj" where
  \<comment> \<open>the \<^verbatim>\<open>newNote\<close> literal; \<open>newId\<close> is the result of \<^verbatim>\<open>uuidv4()\<close>\<close>
  "new_corner_note newId uid sessionId cornerName fld val =
     [(''id'', JStr newId), (''userId'', JStr uid),
      (''sessionId'', sessionId), (''cornerName'', cornerName),
      (''entry'', corner_text ''entry'' fld val),
      (''apex'', corner_text ''apex'' fld val),
      (''exit'', corner_text ''exit'' fld val)]"

definition post_corner_note :: "string \<Rightarrow> string \<Rightarrow> obj \<Rightarrow> store \<Rightarrow> response \<times> store" where
  \<comment> \<open>\<^verbatim>\<open>POST /api/corner-notes\<close>, the upsert by session and corner name\<close>
  "post_corner_note newId uid body st =
     (case (field body ''sessionId'', field body ''cornerName'') of
        (Some sessionId, Some cornerName) \<Rightarrow>
          if \<not> truthy (Some sessionId) \<or> \<not> truthy (Some cornerName) then (Inl BadRequest, st)
          else
            (case List.find (same_corner uid (Some sessionId) (Some cornerName)) (cornerNotes st) of
               Some cn \<Rightarrow>
                 (Inr (Ok (JObj (set_corner_field (field body ''field'') (field body ''value'') cn))),
                  st\<lparr>cornerNotes :=
                       assign_first (same_corner uid (Some sessionId) (Some cornerName))
                         (set_corner_field (field body ''field'') (field body ''value''))
                         (cornerNotes st)\<rparr>)
             | None \<Rightarrow>
                 (Inr (Created (JObj (new_corner_note newId uid sessionId cornerName
                                        (field body ''field'') (field body ''value'')))),
                  st\<lparr>cornerNotes := cornerNotes st @
                       [new_corner_note newId uid sessionId cornerName
                          (field body ''field'') (field body ''value'')]\<rparr>))
      | _ \<Rightarrow> (Inl BadRequest, st))"

definition delete_corner_note :: "string \<Rightarrow> string \<Rightarrow> store \<Rightarrow> response \<times> store" where
  \<comment> \<open>\<^verbatim>\<open>DELETE /api/corner-notes/:id\<close>\<close>
  "delete_corner_note uid rid st =
     (case delete_record (cornerNotes st) uid rid of (r, xs) \<Rightarrow> (r, st\<lparr>cornerNotes := xs\<rparr>))"

section \<open>Sessions\<close>

definition get_session :: "string \<Rightarrow> string \<Rightarrow> store \<Rightarrow> response" where
  \<comment> \<open>\<^verbatim>\<open>GET /api/sessions/:id\<close>\<close>
  "get_session uid rid st = get_record (sessions st) uid rid"

definition session_fields :: "string list" where
  \<comment> \<open>the properties that \<^verbatim>\<open>PUT /api/sessions/:id\<close> assigns\<close>
  "session_fields =
     [''type'', ''name'', ''date'', ''trackConditions'', ''tyrePressures'', ''frontARB'', ''rearARB'',
      ''brakeBias'', ''setupComments'', ''focusAreas'', ''bestLaptime'', ''idealLaptime'', ''series'']"

definition put_session :: "string \<Rightarrow> string \<Rightarrow> obj \<Rightarrow> store \<Rightarrow> response \<times> store" where
  \<comment> \<open>\<^verbatim>\<open>PUT /api/sessions/:id\<close>\<close>
  "put_session uid rid body st =
     (case put_record (coalesce_fields session_fields body) (sessions st) uid rid of
        (r, xs) \<Rightarrow> (r, st\<lparr>sessions := xs\<rparr>))"

definition delete_session :: "string \<Rightarrow> string \<Rightarrow> store \<Rightarrow> response \<times> store" where
  \<comment> \<open>\<^verbatim>\<open>DELETE /api/sessions/:id\<close>\<close>
  "delete_session uid rid st =
     (if \<not> list_ex (is_record rid uid) (sessions st) then (Inl NotFound, st)
      else (Inr NoContent,
        st\<lparr>sessions := splice_first (is_record rid uid) (sessions st),
           cornerNotes := filter (\<lambda>cn. \<not> refers ''sessionId'' rid uid cn) (cornerNotes st)\<rparr>))"

section \<open>Maintenance\<close>

definition get_maintenance :: "string \<Rightarrow> string \<Rightarrow> store \<Rightarrow> response" where
  \<comment> \<open>\<^verbatim>\<open>GET /api/maintenance/:id\<close>\<close>
  "get_maintenance uid rid st = get_record (maintenance st) uid rid"

definition put_maintenance :: "string \<Rightarrow> string \<Rightarrow> obj \<Rightarrow> store \<Rightarrow> response \<times> store" where
  \<comment> \<open>\<^verbatim>\<open>PUT /api/maintenance/:id\<close>\<close>
  "put_maintenance uid rid body st =
     (case put_record (merge_body body) (maintenance st) uid rid of
        (r, xs) \<Rightarrow> (r, st\<lparr>maintenance := xs\<rparr>))"

definition delete_maintenance :: "string \<Rightarrow> string \<Rightarrow> store \<Rightarrow> response \<times> store" where
  \<comment> \<open>\<^verbatim>\<open>DELETE /api/maintenance/:id\<close>\<close>
  "delete_maintenance uid rid st =
     (case delete_record (maintenance st) uid rid of (r, xs) \<Rightarrow> (r, st\<lparr>maintenance := xs\<rparr>))"

section \<open>Account deletion\<close>

definition is_user :: "string \<Rightarrow> obj \<Rightarrow> bool" where
  \<comment> \<open>\<^verbatim>\<open>u => u.id === req.session.userId\<close>\<close>
  "is_user uid u = strict_eq (field u ''id'') (Some (JStr uid))"

definition purge_user :: "string \<Rightarrow> store \<Rightarrow> store" where
  \<comment> \<open>the eight pairs of \<^verbatim>\<open>readJsonFile(...).filter(...)\<close> and \<^verbatim>\<open>writeJsonFile\<close>\<close>
  "purge_user uid st =
     st\<lparr>cars := filter (\<lambda>c. \<not> owner_is uid c) (cars st),
        setups := filter (\<lambda>s. \<not> owner_is uid s) (setups st),
        tracks := filter (\<lambda>t. \<not> owner_is uid t) (tracks st),
        sessions := filter (\<lambda>s. \<not> owner_is uid s) (sessions st),
        cornerNotes := filter (\<lambda>cn. \<not> owner_is uid cn) (cornerNotes st),
        trackNotes := filter (\<lambda>tn. \<not> owner_is uid tn) (trackNotes st),
        maintenance := filter (\<lambda>m. \<not> owner_is uid m) (maintenance st),
        users := filter (\<lambda>u. \<not> is_user uid u) (users st)\<rparr>"

definition delete_user ::
  "(jval option \<Rightarrow> jval option \<Rightarrow> bool option) \<Rightarrow> string \<Rightarrow> obj \<Rightarrow> store \<Rightarrow> response \<times> store" where
  \<comment> \<open>\<^verbatim>\<open>DELETE /api/user\<close>. \<open>compare password hash\<close> is \<^verbatim>\<open>bcrypt.compare\<close>: whether
      the password matches, or \<open>None\<close> when it throws, which the route answers with 500.
      The session of the request is destroyed at the end; it is not part of the store.\<close>
  "delete_user compare uid body st =
     (if \<not> truthy (field body ''password'') then (Inl BadRequest, st)
      else
        (case List.find (is_user uid) (users st) of
           None \<Rightarrow> (Inl NotFound, st)
         | Some user \<Rightarrow>
             (case compare (field body ''password'') (field user ''passwordHash'') of
                None \<Rightarrow> (Inl ServerError, st)
              | Some False \<Rightarrow> (Inl Unauthorized, st)
              | Some True \<Rightarrow>
                  (Inr (Ok (JObj [(''message'', JStr ''Account deleted successfully'')])),
                   purge_user uid st))))"

section \<open>The routing table\<close>

text \<open>
  Express dispatches \<^verbatim>\<open>GET\<close>, \<^verbatim>\<open>PUT\<close> and \<^verbatim>\<open>DELETE\<close> of \<^verbatim>\<open>/api/<kind>/:id\<close> to the
  routes above. There is no \<^verbatim>\<open>PUT /api/corner-notes/:id\<close>: a corner note is changed
  through the upsert, and Express answers a request without a route with 404.
\<close>

datatype entity = Car | Setup | Track | TrackNote | CornerNote | Session | MaintenanceTask

fun collection :: "entity \<Rightarrow> store \<Rightarrow> obj list" where
  "collection Car st = cars st"
| "collection Setup st = setups st"
| "collection Track st = tracks st"
| "collection TrackNote st = trackNotes st"
| "collection CornerNote st = cornerNotes st"
| "collection Session st = sessions st"
| "collection MaintenanceTask st = maintenance st"

fun get_entity :: "entity \<Rightarrow> string \<Rightarrow> string \<Rightarrow> store \<Rightarrow> response" where
  "get_entity Car = get_car"
| "get_entity Setup = get_setup"
| "get_entity Track = get_track"
| "get_entity TrackNote = get_track_note"
| "get_entity CornerNote = get_corner_note"
| "get_entity Session = get_session"
| "get_entity MaintenanceTask = get_maintenance"

fun put_entity ::
  "(string \<Rightarrow> string \<Rightarrow> string option) \<Rightarrow> entity \<Rightarrow> string \<Rightarrow> string \<Rightarrow> obj \<Rightarrow> store
     \<Rightarrow> response \<times> store" where
  "put_entity download Car = put_car"
| "put_entity download Setup = put_setup"
| "put_entity download Track = put_track download"
| "put_entity download TrackNote = put_track_note"
| "put_entity download CornerNote = (\<lambda>uid rid body st. (Inl NotFound, st))"
| "put_entity download Session = put_session"
| "put_entity download MaintenanceTask = put_maintenance"

fun delete_entity :: "entity \<Rightarrow> string \<Rightarrow> string \<Rightarrow> store \<Rightarrow> response \<times> store" where
  "delete_entity Car = delete_car"
| "delete_entity Setup = delete_setup"
| "delete_entity Track = delete_track"
| "delete_entity TrackNote = delete_track_note"
| "delete_entity CornerNote = delete_corner_note"
| "delete_entity Session = delete_session"
| "delete_entity MaintenanceTask = delete_maintenance"

section \<open>Bulk delete\<close>

record delete_summary =
  carsDeleted :: nat
  tracksDeleted :: nat
  setupsDeleted :: nat
  sessionsDeleted :: nat
  cornerNotesDeleted :: nat
  trackNotesDeleted :: nat
  maintenanceDeleted :: nat

definition selected_ids :: "string \<Rightarrow> jval list \<Rightarrow> obj list \<Rightarrow> jval option list" where
  \<comment> \<open>\<^verbatim>\<open>cars.filter(c => c.userId === userId && carIds.includes(c.id)).map(c => c.id)\<close>\<close>
  "selected_ids uid ids xs =
     map (\<lambda>c. field c ''id'') (filter (\<lambda>c. owner_is uid c \<and> js_includes (map Some ids) (field c ''id'')) xs)"

definition child_of :: "string \<Rightarrow> string \<Rightarrow> jval option list \<Rightarrow> obj \<Rightarrow> bool" where
  \<comment> \<open>\<^verbatim>\<open>s => s.userId === userId && s.carId && carIdSet.has(s.carId)\<close>, for the foreign
      key \<open>fk\<close>\<close>
  "child_of fk uid idSet s = (owner_is uid s \<and> truthy (field s fk) \<and> js_includes idSet (field s fk))"

definition bulk_car_pass :: "string \<Rightarrow> jval list \<Rightarrow> store \<times> delete_summary \<Rightarrow> store \<times> delete_summary" where
  \<comment> \<open>the block \<^verbatim>\<open>if (carIds.length > 0) { ... }\<close>\<close>
  "bulk_car_pass uid carIds = (\<lambda>(st, sm).
     let carIdSet = selected_ids uid carIds (cars st);
         setups' = filter (\<lambda>s. \<not> child_of ''carId'' uid carIdSet s) (setups st);
         sessionIdSet = map (\<lambda>s. field s ''id'') (filter (child_of ''carId'' uid carIdSet) (sessions st));
         sessions' = filter (\<lambda>s. \<not> has_id_of (filter (child_of ''carId'' uid carIdSet) (sessions st)) s) (sessions st);
         cornerNotes' = filter (\<lambda>cn. \<not> (owner_is uid cn \<and> js_includes sessionIdSet (field cn ''sessionId'')))
                          (cornerNotes st);
         trackNotes' = filter (\<lambda>tn. \<not> child_of ''carId'' uid carIdSet tn) (trackNotes st);
         maintenance' = filter (\<lambda>m. \<not> child_of ''carId'' uid carIdSet m) (maintenance st);
         cars' = filter (\<lambda>c. \<not> (owner_is uid c \<and> js_includes carIdSet (field c ''id''))) (cars st)
     in (st\<lparr>setups := setups', sessions := sessions', cornerNotes := cornerNotes',
             trackNotes := trackNotes', maintenance := maintenance', cars := cars'\<rparr>,
         sm\<lparr>setupsDeleted := setupsDeleted sm + (length (setups st) - length setups'),
             sessionsDeleted := sessionsDeleted sm + (length (sessions st) - length sessions'),
             cornerNotesDeleted := cornerNotesDeleted sm + (length (cornerNotes st) - length cornerNotes'),
             trackNotesDeleted := trackNotesDeleted sm + (length (trackNotes st) - length trackNotes'),
             maintenanceDeleted := maintenanceDeleted sm + (length (maintenance st) - length maintenance'),
             carsDeleted := carsDeleted sm + (length (cars st) - length cars')\<rparr>))"

definition bulk_track_pass :: "string \<Rightarrow> jval list \<Rightarrow> store \<times> delete_summary \<Rightarrow> store \<times> delete_summary" where
  \<comment> \<open>the block \<^verbatim>\<open>if (trackIds.length > 0) { ... }\<close>\<close>
  "bulk_track_pass uid trackIds = (\<lambda>(st, sm).
     let trackIdSet = selected_ids uid trackIds (tracks st);
         setups' = filter (\<lambda>s. \<not> child_of ''trackId'' uid trackIdSet s) (setups st);
         sessionIdSet = map (\<lambda>s. field s ''id'') (filter (child_of ''trackId'' uid trackIdSet) (sessions st));
         sessions' = filter (\<lambda>s. \<not> has_id_of (filter (child_of ''trackId'' uid trackIdSet) (sessions st)) s) (sessions st);
         cornerNotes' = filter (\<lambda>cn. \<not> (owner_is uid cn \<and> js_includes sessionIdSet (field cn ''sessionId'')))
                          (cornerNotes st);
         trackNotes' = filter (\<lambda>tn. \<not> child_of ''trackId'' uid trackIdSet tn) (trackNotes st);
         tracks' = filter (\<lambda>t. \<not> (owner_is uid t \<and> js_includes trackIdSet (field t ''id''))) (tracks st)
     in (st\<lparr>setups := setups', sessions := sessions', cornerNotes := cornerNotes',
             trackNotes := trackNotes', tracks := tracks'\<rparr>,
         sm\<lparr>setupsDeleted := setupsDeleted sm + (length (setups st) - length setups'),
             sessionsDeleted := sessionsDeleted sm + (length (sessions st) - length sessions'),
             cornerNotesDeleted := cornerNotesDeleted sm + (length (cornerNotes st) - length cornerNotes'),
             trackNotesDeleted := trackNotesDeleted sm + (length (trackNotes st) - length trackNotes'),
             tracksDeleted := tracksDeleted sm + (length (tracks st) - length tracks')\<rparr>))"

definition no_deletions :: delete_summary where
  "no_deletions = \<lparr>carsDeleted = 0, tracksDeleted = 0, setupsDeleted = 0, sessionsDeleted = 0,
     cornerNotesDeleted = 0, trackNotesDeleted = 0, maintenanceDeleted = 0\<rparr>"

definition post_bulk_delete ::
  "string \<Rightarrow> jval list \<Rightarrow> jval list \<Rightarrow> store \<Rightarrow> (error + delete_summary) \<times> store" where
  \<comment> \<open>\<^verbatim>\<open>POST /api/bulk-delete\<close>; \<open>carIds\<close> and \<open>trackIds\<close> are the two arrays of the
      request body, \<open>[]\<close> when the body has none\<close>
  "post_bulk_delete uid carIds trackIds st =
     (if carIds = [] \<and> trackIds = [] then (Inl BadRequest, st)
      else
        (case (if trackIds \<noteq> [] then bulk_track_pass uid trackIds else id)
                ((if carIds \<noteq> [] then bulk_car_pass uid carIds else id) (st, no_deletions)) of
           (st', sm) \<Rightarrow> (Inr sm, st')))"

section \<open>Export\<close>

text \<open>
  The envelope is \<^verbatim>\<open>{ version, exportDate, appName, data }\<close>. Its \<^verbatim>\<open>data\<close> holds the
  cars and tracks and, per inclusion flag, the dependent records; a category that was not
  asked for is absent (\<open>None\<close>). The date and the application name are not read by the
  import. The track images (a file name and the content of the file for each image that
  exists on the disk) are files beside the collections: the import writes them to the
  disk inside a \<^verbatim>\<open>try\<close> block and stores nothing of them in the collections. They are
  left out of the envelope.
\<close>

record export_data =
  d_cars :: "obj list"
  d_tracks :: "obj list"
  d_setups :: "obj list option"
  d_sessions :: "obj list option"
  d_cornerNotes :: "obj list option"
  d_trackNotes :: "obj list option"
  d_maintenance :: "obj list option"

record envelope =
  version :: "jval option"
  data :: "export_data option"

record export_flags =
  includeSetups :: bool
  includeSessions :: bool
  includeMaintenance :: bool
  includeTrackNotes :: bool

definition in_selection :: "jval list \<Rightarrow> jval list \<Rightarrow> obj \<Rightarrow> bool" where
  \<comment> \<open>\<^verbatim>\<open>s => (s.carId && carIds.includes(s.carId)) || (s.trackId && trackIds.includes(s.trackId))\<close>\<close>
  "in_selection carIds trackIds s =
     ((truthy (field s ''carId'') \<and> js_includes (map Some carIds) (field s ''carId'')) \<or>
      (truthy (field s ''trackId'') \<and> js_includes (map Some trackIds) (field s ''trackId'')))"

definition export_sessions :: "string \<Rightarrow> jval list \<Rightarrow> jval list \<Rightarrow> store \<Rightarrow> obj list" where
  "export_sessions uid carIds trackIds st =
     filter (in_selection carIds trackIds) (filter (owner_is uid) (sessions st))"

definition image_read :: "obj \<Rightarrow> bool" where
  \<comment> \<open>\<^verbatim>\<open>track.imageUrl && track.imageUrl.startsWith('/images/tracks/')\<close> is evaluated
      without an exception: a truthy value that is no string has no method
      \<^verbatim>\<open>startsWith\<close>\<close>
  "image_read t = (case field t ''imageUrl'' of Some (JStr url) \<Rightarrow> True | v \<Rightarrow> \<not> truthy v)"

definition post_export ::
  "string \<Rightarrow> jval list \<Rightarrow> jval list \<Rightarrow> export_flags \<Rightarrow> store \<Rightarrow> error + envelope" where
  \<comment> \<open>\<^verbatim>\<open>POST /api/export\<close>; it writes nothing. The loop over the exported tracks that
      collects the image files throws at a track whose \<^verbatim>\<open>imageUrl\<close> is truthy and no
      string, and Express answers 500.\<close>
  "post_export uid carIds trackIds flags st =
     (if carIds = [] \<and> trackIds = [] then Inl BadRequest
      else if \<not> list_all image_read
                  (filter (\<lambda>t. js_includes (map Some trackIds) (field t ''id''))
                     (filter (owner_is uid) (tracks st)))
      then Inl ServerError
      else Inr \<lparr>version = Some (JNum 1), data = Some
        \<lparr>d_cars = filter (\<lambda>c. js_includes (map Some carIds) (field c ''id''))
                    (filter (owner_is uid) (cars st)),
         d_tracks = filter (\<lambda>t. js_includes (map Some trackIds) (field t ''id''))
                      (filter (owner_is uid) (tracks st)),
         d_setups = (if includeSetups flags
                     then Some (filter (in_selection carIds trackIds) (filter (owner_is uid) (setups st)))
                     else None),
         d_sessions = (if includeSessions flags then Some (export_sessions uid carIds trackIds st) else None),
         d_cornerNotes = (if includeSessions flags
                     then Some (filter (\<lambda>cn. js_includes (map (\<lambda>s. field s ''id'')
                                                  (export_sessions uid carIds trackIds st))
                                                (field cn ''sessionId''))
                                  (filter (owner_is uid) (cornerNotes st)))
                     else None),
         d_trackNotes = (if includeTrackNotes flags
                     then Some (filter (in_selection carIds trackIds) (filter (owner_is uid) (trackNotes st)))
                     else None),
         d_maintenance = (if includeMaintenance flags
                     then Some (filter (\<lambda>m. truthy (field m ''carId'') \<and>
                                              js_includes (map Some carIds) (field m ''carId''))
                                  (filter (owner_is uid) (maintenance st)))
                     else None)\<rparr>\<rparr>)"

section \<open>Import\<close>

subsection \<open>Property keys\<close>

text \<open>
  \<^verbatim>\<open>carIdMap\<close>, \<^verbatim>\<open>trackIdMap\<close> and \<^verbatim>\<open>sessionIdMap\<close> are objects \<^verbatim>\<open>{}\<close> used as
  dictionaries from an old id to a new one. Reading or writing \<^verbatim>\<open>m[k]\<close> first makes a
  property key of \<^verbatim>\<open>k\<close>: the string of a primitive value; for an array the strings of
  its elements joined by commas (nothing for \<^verbatim>\<open>null\<close>); for an object the answer
  \<^verbatim>\<open>[object Object]\<close> of \<^verbatim>\<open>Object.prototype.toString\<close>, unless the object has a property
  \<^verbatim>\<open>toString\<close> of its own: no JSON value is a function and \<^verbatim>\<open>valueOf\<close> answers the
  object itself, so the conversion throws a \<^verbatim>\<open>TypeError\<close> (\<open>None\<close>).

  Two things belong to the runtime and not to the repository, and are parameters:
  \<^verbatim>\<open>Number.prototype.toString\<close>, and the names of the properties of \<^verbatim>\<open>Array.prototype\<close>.
\<close>

record runtime =
  number_string :: "real \<Rightarrow> string"
  array_prototype :: "string list"

fun digits :: "nat \<Rightarrow> string" where
  "digits n = (if n < 10 then [''0123456789'' ! n]
               else digits (n div 10) @ [''0123456789'' ! (n mod 10)])"

fun join_comma :: "string list \<Rightarrow> string" where
  "join_comma [] = []"
| "join_comma [x] = x"
| "join_comma (x # y # ys) = x @ '','' @ join_comma (y # ys)"

fun to_string :: "runtime \<Rightarrow> jval \<Rightarrow> string option" where
  \<comment> \<open>\<^verbatim>\<open>String(v)\<close>\<close>
  "to_string js JNull = Some ''null''"
| "to_string js (JBool b) = Some (if b then ''true'' else ''false'')"
| "to_string js (JNum n) = Some (number_string js n)"
| "to_string js (JStr s) = Some s"
| "to_string js (JArr xs) =
     map_option join_comma (those (map (\<lambda>x. if x = JNull then Some [] else to_string js x) xs))"
| "to_string js (JObj ps) = (if ''toString'' \<in> fst ` set ps then None else Some ''[object Object]'')"

definition key_of :: "runtime \<Rightarrow> jval option \<Rightarrow> string option" where
  \<comment> \<open>the property key of \<^verbatim>\<open>m[v]\<close>\<close>
  "key_of js v = (case v of None \<Rightarrow> Some ''undefined'' | Some x \<Rightarrow> to_string js x)"

subsection \<open>The id maps\<close>

text \<open>
  An id map is an ordinary object: it has the properties that were assigned to it, and a
  prototype, at first \<^verbatim>\<open>Object.prototype\<close>. A property that the object does not have
  itself is read from the prototype: the methods that every object inherits are
  functions, and \<^verbatim>\<open>__proto__\<close> answers the prototype. An assignment to \<^verbatim>\<open>__proto__\<close>
  that reaches the setter of \<^verbatim>\<open>Object.prototype\<close> creates no property: it replaces the
  prototype when the value is \<^verbatim>\<open>null\<close>, an object or an array (here a value parsed from
  a file, whose own prototype is \<^verbatim>\<open>Object.prototype\<close> or \<^verbatim>\<open>Array.prototype\<close>), and does
  nothing for any other value.
\<close>

datatype prototype = ObjectPrototype | NoPrototype | ParsedObject obj | ParsedArray "jval list"

record idmap =
  props :: "(string \<times> jval option) list"
  proto :: prototype

definition empty_map :: idmap where
  \<comment> \<open>\<^verbatim>\<open>{}\<close>\<close>
  "empty_map = \<lparr>props = [], proto = ObjectPrototype\<rparr>"

definition object_prototype :: "string list" where
  \<comment> \<open>\<^verbatim>\<open>Object.getOwnPropertyNames(Object.prototype)\<close>\<close>
  "object_prototype =
     [''constructor'', ''__defineGetter__'', ''__defineSetter__'', ''hasOwnProperty'',
      ''__lookupGetter__'', ''__lookupSetter__'', ''isPrototypeOf'', ''propertyIsEnumerable'',
      ''toString'', ''valueOf'', ''__proto__'', ''toLocaleString'']"

text \<open>
  What a read answers: a JSON value or \<^verbatim>\<open>undefined\<close>; a built-in function; or the object
  \<^verbatim>\<open>Object.prototype\<close> itself. The last two are truthy. When a record that holds them is
  written to its file, \<^verbatim>\<open>JSON.stringify\<close> leaves out a property whose value is a
  function, and writes \<^verbatim>\<open>Object.prototype\<close> as \<^verbatim>\<open>{}\<close>.
\<close>

datatype property = Plain "jval option" | Builtin | ThePrototype

definition from_object_prototype :: "property \<Rightarrow> string \<Rightarrow> property" where
  \<comment> \<open>a read that reaches \<^verbatim>\<open>Object.prototype\<close>; \<open>parent\<close> is the prototype of the object
      that is read, which the getter of \<^verbatim>\<open>__proto__\<close> answers\<close>
  "from_object_prototype parent k =
     (if k = ''__proto__'' then parent
      else if k \<in> set object_prototype then Builtin
      else Plain None)"

definition idmap_get :: "runtime \<Rightarrow> idmap \<Rightarrow> string \<Rightarrow> property" where
  \<comment> \<open>\<^verbatim>\<open>m[k]\<close>, for the property key \<open>k\<close>\<close>
  "idmap_get js m k =
     (case map_of (props m) k of
        Some v \<Rightarrow> Plain v
      | None \<Rightarrow>
         (case proto m of
            ObjectPrototype \<Rightarrow> from_object_prototype ThePrototype k
          | NoPrototype \<Rightarrow> Plain None
          | ParsedObject ps \<Rightarrow>
              (case map_of ps k of
                 Some v \<Rightarrow> Plain (Some v)
               | None \<Rightarrow> from_object_prototype (Plain (Some (JObj ps))) k)
          | ParsedArray xs \<Rightarrow>
              (case List.find (\<lambda>i. digits i = k) [0..<length xs] of
                 Some i \<Rightarrow> Plain (Some (xs ! i))
               | None \<Rightarrow>
                   if k = ''length'' then Plain (Some (JNum (real (length xs))))
                   else if k \<in> set (array_prototype js) then Builtin
                   else from_object_prototype (Plain (Some (JArr xs))) k)))"

definition reaches_setter :: "idmap \<Rightarrow> bool" where
  \<comment> \<open>an assignment to \<^verbatim>\<open>__proto__\<close> finds no property of that name, in the object or in
      a parsed object that is its prototype, before the accessor of \<^verbatim>\<open>Object.prototype\<close>\<close>
  "reaches_setter m =
     (''__proto__'' \<notin> fst ` set (props m) \<and>
      (case proto m of
         ObjectPrototype \<Rightarrow> True
       | NoPrototype \<Rightarrow> False
       | ParsedObject ps \<Rightarrow> ''__proto__'' \<notin> fst ` set ps
       | ParsedArray xs \<Rightarrow> True))"

definition idmap_set :: "idmap \<Rightarrow> string \<Rightarrow> jval option \<Rightarrow> idmap" where
  \<comment> \<open>\<^verbatim>\<open>m[k] = v\<close>, for the property key \<open>k\<close>\<close>
  "idmap_set m k v =
     (if k = ''__proto__'' \<and> reaches_setter m then
        (case v of
           Some JNull \<Rightarrow> m\<lparr>proto := NoPrototype\<rparr>
         | Some (JObj ps) \<Rightarrow> m\<lparr>proto := ParsedObject ps\<rparr>
         | Some (JArr xs) \<Rightarrow> m\<lparr>proto := ParsedArray xs\<rparr>
         | _ \<Rightarrow> m)
      else m\<lparr>props := AList.update k v (props m)\<rparr>)"

definition idmap_values :: "idmap \<Rightarrow> jval option list" where
  \<comment> \<open>\<^verbatim>\<open>Object.values(m)\<close>, put into a \<^verbatim>\<open>Set\<close> by the route\<close>
  "idmap_values m = map snd (props m)"

definition or_stored :: "property \<Rightarrow> jval option \<Rightarrow> jval option" where
  \<comment> \<open>\<^verbatim>\<open>p || b\<close> as the value of a property of a record, the way the record is written to
      its file\<close>
  "or_stored p b = (case p of Plain v \<Rightarrow> or_else v b | Builtin \<Rightarrow> None | ThePrototype \<Rightarrow> Some (JObj []))"

definition truthy_property :: "property \<Rightarrow> bool" where
  "truthy_property p = (case p of Plain v \<Rightarrow> truthy v | Builtin \<Rightarrow> True | ThePrototype \<Rightarrow> True)"

subsection \<open>The state of one import\<close>

record import_summary =
  carsImported :: nat
  carsSkipped :: nat
  tracksImported :: nat
  tracksSkipped :: nat
  setupsImported :: nat
  setupsSkipped :: nat
  sessionsImported :: nat
  sessionsSkipped :: nat
  cornerNotesImported :: nat
  trackNotesImported :: nat
  trackNotesSkipped :: nat
  maintenanceImported :: nat
  maintenanceSkipped :: nat

text \<open>
  The route keeps the summary, the three id maps and the two sets of skipped ids in local
  variables and reads and writes the files as it goes; \<open>db\<close> is the content of the files.
  \<^verbatim>\<open>uuidv4()\<close> is a parameter \<open>uuidv4 :: nat \<Rightarrow> string\<close> of the import, the sequence
  of the ids it returns, and \<open>uuids\<close> counts the calls made so far.

  Each block of the route reads one file, runs its loop and writes the file. The route
  catches nothing: an exception in a loop ends the request before the file of the block is
  written, and Express answers 500. A block is a function to \<open>store + import_state\<close>:
  \<open>Inl\<close> holds the files as they are when the exception ends the request.
\<close>

record import_state =
  db :: store
  summary :: import_summary
  carIdMap :: idmap
  trackIdMap :: idmap
  sessionIdMap :: idmap
  skippedCarIds :: "jval option list"
  skippedTrackIds :: "jval option list"
  uuids :: nat

definition start_import :: "store \<Rightarrow> import_state" where
  "start_import st =
     \<lparr>db = st,
      summary = \<lparr>carsImported = 0, carsSkipped = 0, tracksImported = 0, tracksSkipped = 0,
                 setupsImported = 0, setupsSkipped = 0, sessionsImported = 0, sessionsSkipped = 0,
                 cornerNotesImported = 0, trackNotesImported = 0, trackNotesSkipped = 0,
                 maintenanceImported = 0, maintenanceSkipped = 0\<rparr>,
      carIdMap = empty_map, trackIdMap = empty_map, sessionIdMap = empty_map,
      skippedCarIds = [], skippedTrackIds = [], uuids = 0\<rparr>"

fun fold_opt :: "('a \<Rightarrow> 'b \<Rightarrow> 'b option) \<Rightarrow> 'a list \<Rightarrow> 'b \<Rightarrow> 'b option" where
  \<comment> \<open>a \<^verbatim>\<open>for ... of\<close> loop whose body can throw\<close>
  "fold_opt f [] s = Some s"
| "fold_opt f (x # xs) s = (case f x s of None \<Rightarrow> None | Some s' \<Rightarrow> fold_opt f xs s')"

definition written :: "import_state \<Rightarrow> import_state option \<Rightarrow> store + import_state" where
  \<comment> \<open>the outcome of a block that started in \<open>s\<close>\<close>
  "written s r = (case r of None \<Rightarrow> Inl (db s) | Some s' \<Rightarrow> Inr s')"

subsection \<open>Cars\<close>

definition car_matches :: "obj \<Rightarrow> obj \<Rightarrow> bool" where
  \<comment> \<open>\<^verbatim>\<open>c => c.name === importCar.name && c.manufacturer === importCar.manufacturer
      && c.series === importCar.series\<close>\<close>
  "car_matches importCar c =
     (strict_eq (field c ''name'') (field importCar ''name'') \<and>
      strict_eq (field c ''manufacturer'') (field importCar ''manufacturer'') \<and>
      strict_eq (field c ''series'') (field importCar ''series''))"

definition overwrite_car :: "obj \<Rightarrow> obj \<Rightarrow> obj" where
  \<comment> \<open>\<^verbatim>\<open>{ ...existingCars[idx], name: importCar.name, manufacturer: ..., series: ... }\<close>\<close>
  "overwrite_car importCar c =
     set_field ''series'' (field importCar ''series'')
       (set_field ''manufacturer'' (field importCar ''manufacturer'')
         (set_field ''name'' (field importCar ''name'') c))"

definition new_car :: "string \<Rightarrow> string \<Rightarrow> obj \<Rightarrow> obj" where
  "new_car newId uid importCar =
     set_field ''series'' (or_else (field importCar ''series'') (Some (JStr [])))
       (set_field ''manufacturer'' (or_else (field importCar ''manufacturer'') (Some (JStr [])))
         (set_field ''name'' (or_else (field importCar ''name'') (Some (JStr [])))
           [(''id'', JStr newId), (''userId'', JStr uid)]))"

definition import_car ::
  "runtime \<Rightarrow> bool \<Rightarrow> (nat \<Rightarrow> string) \<Rightarrow> string \<Rightarrow> obj list \<Rightarrow> obj \<Rightarrow> import_state
     \<Rightarrow> import_state option" where
  \<comment> \<open>one turn of \<^verbatim>\<open>for (const importCar of importData.cars)\<close>; \<open>userCars\<close> is computed
      once, before the loop. In each of the three branches \<^verbatim>\<open>carIdMap[importCar.id]\<close> is
      assigned, which throws when \<^verbatim>\<open>importCar.id\<close> has no property key.\<close>
  "import_car js overwrite uuidv4 uid userCars importCar s =
     (case key_of js (field importCar ''id'') of
        None \<Rightarrow> None
      | Some k \<Rightarrow> Some
         (case List.find (car_matches importCar) userCars of
            Some match \<Rightarrow>
              if overwrite then
                s\<lparr>carIdMap := idmap_set (carIdMap s) k (field match ''id''),
                  db := (db s)\<lparr>cars := assign_first (\<lambda>c. strict_eq (field c ''id'') (field match ''id''))
                                         (overwrite_car importCar) (cars (db s))\<rparr>,
                  summary := (summary s)\<lparr>carsImported := carsImported (summary s) + 1\<rparr>\<rparr>
              else
                s\<lparr>carIdMap := idmap_set (carIdMap s) k (field match ''id''),
                  skippedCarIds := skippedCarIds s @ [field importCar ''id''],
                  summary := (summary s)\<lparr>carsSkipped := carsSkipped (summary s) + 1\<rparr>\<rparr>
          | None \<Rightarrow>
              s\<lparr>carIdMap := idmap_set (carIdMap s) k (Some (JStr (uuidv4 (uuids s)))),
                db := (db s)\<lparr>cars := cars (db s) @ [new_car (uuidv4 (uuids s)) uid importCar]\<rparr>,
                summary := (summary s)\<lparr>carsImported := carsImported (summary s) + 1\<rparr>,
                uuids := uuids s + 1\<rparr>))"

definition import_cars ::
  "runtime \<Rightarrow> bool \<Rightarrow> (nat \<Rightarrow> string) \<Rightarrow> string \<Rightarrow> obj list \<Rightarrow> import_state
     \<Rightarrow> store + import_state" where
  "import_cars js overwrite uuidv4 uid importCars s =
     written s (fold_opt (import_car js overwrite uuidv4 uid (filter (owner_is uid) (cars (db s))))
                  importCars s)"

subsection \<open>Tracks\<close>

definition track_matches :: "obj \<Rightarrow> obj \<Rightarrow> bool" where
  \<comment> \<open>\<^verbatim>\<open>t => t.name === importTrack.name && t.location === importTrack.location\<close>\<close>
  "track_matches importTrack t =
     (strict_eq (field t ''name'') (field importTrack ''name'') \<and>
      strict_eq (field t ''location'') (field importTrack ''location''))"

definition overwrite_track :: "obj \<Rightarrow> obj \<Rightarrow> obj" where
  "overwrite_track importTrack t =
     set_field ''imageUrl'' (field importTrack ''imageUrl'')
       (set_field ''circuitNotes'' (field importTrack ''circuitNotes'')
         (set_field ''corners'' (field importTrack ''corners'')
           (set_field ''length'' (field importTrack ''length'')
             (set_field ''location'' (field importTrack ''location'')
               (set_field ''name'' (field importTrack ''name'') t)))))"

definition new_track_image :: "(string \<Rightarrow> string) \<Rightarrow> string \<Rightarrow> obj \<Rightarrow> jval option" where
  \<comment> \<open>The \<^verbatim>\<open>imageUrl\<close> of a new track: a local image is renamed to the new id. \<open>extname\<close>
      is \<^verbatim>\<open>path.extname\<close>. A truthy \<^verbatim>\<open>importTrack.imageUrl\<close> that is no string has no
      \<^verbatim>\<open>startsWith\<close>: the route throws (\<open>None\<close>).\<close>
  "new_track_image extname newId importTrack =
     (case or_else (field importTrack ''imageUrl'') (Some (JStr [])) of
        Some (JStr url) \<Rightarrow>
          if starts_with ''/images/tracks/'' url
          then Some (JStr (''/images/tracks/'' @ newId @ extname url))
          else Some (JStr url)
      | _ \<Rightarrow> None)"

definition new_track :: "string \<Rightarrow> string \<Rightarrow> jval \<Rightarrow> obj \<Rightarrow> obj" where
  "new_track newId uid imageUrl importTrack =
     set_field ''circuitNotes'' (or_else (field importTrack ''circuitNotes'') (Some (JStr [])))
       (set_field ''corners'' (or_else (field importTrack ''corners'') (Some (JArr [])))
         (set_field ''imageUrl'' (Some imageUrl)
           (set_field ''length'' (or_else (field importTrack ''length'') (Some (JStr [])))
             (set_field ''location'' (or_else (field importTrack ''location'') (Some (JStr [])))
               (set_field ''name'' (or_else (field importTrack ''name'') (Some (JStr [])))
                 [(''id'', JStr newId), (''userId'', JStr uid)])))))"

definition import_track ::
  "runtime \<Rightarrow> bool \<Rightarrow> (nat \<Rightarrow> string) \<Rightarrow> (string \<Rightarrow> string) \<Rightarrow> string \<Rightarrow> obj list \<Rightarrow> obj
     \<Rightarrow> import_state \<Rightarrow> import_state option" where
  \<comment> \<open>one turn of \<^verbatim>\<open>for (const importTrack of importData.tracks)\<close>; \<open>None\<close> when it
      throws\<close>
  "import_track js overwrite uuidv4 extname uid userTracks importTrack s =
     (case key_of js (field importTrack ''id'') of
        None \<Rightarrow> None
      | Some k \<Rightarrow>
         (case List.find (track_matches importTrack) userTracks of
            Some match \<Rightarrow>
              if overwrite then Some
                (s\<lparr>trackIdMap := idmap_set (trackIdMap s) k (field match ''id''),
                   db := (db s)\<lparr>tracks := assign_first (\<lambda>t. strict_eq (field t ''id'') (field match ''id''))
                                            (overwrite_track importTrack) (tracks (db s))\<rparr>,
                   summary := (summary s)\<lparr>tracksImported := tracksImported (summary s) + 1\<rparr>\<rparr>)
              else Some
                (s\<lparr>trackIdMap := idmap_set (trackIdMap s) k (field match ''id''),
                   skippedTrackIds := skippedTrackIds s @ [field importTrack ''id''],
                   summary := (summary s)\<lparr>tracksSkipped := tracksSkipped (summary s) + 1\<rparr>\<rparr>)
          | None \<Rightarrow>
              (case new_track_image extname (uuidv4 (uuids s)) importTrack of
                 None \<Rightarrow> None
               | Some imageUrl \<Rightarrow> Some
                   (s\<lparr>trackIdMap := idmap_set (trackIdMap s) k (Some (JStr (uuidv4 (uuids s)))),
                      db := (db s)\<lparr>tracks := tracks (db s) @
                                       [new_track (uuidv4 (uuids s)) uid imageUrl importTrack]\<rparr>,
                      summary := (summary s)\<lparr>tracksImported := tracksImported (summary s) + 1\<rparr>,
                      uuids := uuids s + 1\<rparr>))))"

definition import_tracks ::
  "runtime \<Rightarrow> bool \<Rightarrow> (nat \<Rightarrow> string) \<Rightarrow> (string \<Rightarrow> string) \<Rightarrow> string \<Rightarrow> obj list
     \<Rightarrow> import_state \<Rightarrow> store + import_state" where
  "import_tracks js overwrite uuidv4 extname uid importTracks s =
     written s (fold_opt (import_track js overwrite uuidv4 extname uid
                            (filter (owner_is uid) (tracks (db s))))
                  importTracks s)"

subsection \<open>Dependent records\<close>

definition fresh_copy :: "string \<Rightarrow> string \<Rightarrow> obj \<Rightarrow> obj" where
  \<comment> \<open>\<^verbatim>\<open>{ ...setup, id: uuidv4(), userId }\<close>\<close>
  "fresh_copy newId uid r = AList.update ''userId'' (JStr uid) (AList.update ''id'' (JStr newId) r)"

definition remap :: "runtime \<Rightarrow> idmap \<Rightarrow> string \<Rightarrow> obj \<Rightarrow> obj option" where
  \<comment> \<open>\<^verbatim>\<open>if (r.carId) r.carId = carIdMap[r.carId] || r.carId\<close>, for the foreign key \<open>fk\<close>;
      \<open>None\<close> when \<^verbatim>\<open>r.carId\<close> has no property key\<close>
  "remap js m fk r =
     (if truthy (field r fk) then
        (case key_of js (field r fk) of
           None \<Rightarrow> None
         | Some k \<Rightarrow> Some (set_field fk (or_stored (idmap_get js m k) (field r fk)) r))
      else Some r)"

definition tied :: "string \<Rightarrow> jval option list \<Rightarrow> jval option list \<Rightarrow> obj \<Rightarrow> bool" where
  \<comment> \<open>\<^verbatim>\<open>s => s.userId === userId && ((s.carId && newCarIds.has(s.carId)) ||
      (s.trackId && newTrackIds.has(s.trackId)))\<close>\<close>
  "tied uid newCarIds newTrackIds s =
     (owner_is uid s \<and>
      ((truthy (field s ''carId'') \<and> js_includes newCarIds (field s ''carId'')) \<or>
       (truthy (field s ''trackId'') \<and> js_includes newTrackIds (field s ''trackId''))))"

definition tied_car :: "string \<Rightarrow> jval option list \<Rightarrow> obj \<Rightarrow> bool" where
  \<comment> \<open>\<^verbatim>\<open>m => m.userId === userId && m.carId && newCarIds.has(m.carId)\<close>\<close>
  "tied_car uid newCarIds m =
     (owner_is uid m \<and> truthy (field m ''carId'') \<and> js_includes newCarIds (field m ''carId''))"

definition without_ids :: "obj list \<Rightarrow> obj list \<Rightarrow> obj list" where
  \<comment> \<open>\<^verbatim>\<open>toRemove = sel.map(s => s.id); existing.filter(s => !toRemove.includes(s.id))\<close>\<close>
  "without_ids sel xs = filter (\<lambda>s. \<not> has_id_of sel s) xs"

definition parent_skipped :: "import_state \<Rightarrow> obj \<Rightarrow> bool" where
  \<comment> \<open>\<^verbatim>\<open>carSkipped || trackSkipped\<close>\<close>
  "parent_skipped s r =
     ((truthy (field r ''carId'') \<and> js_includes (skippedCarIds s) (field r ''carId'')) \<or>
      (truthy (field r ''trackId'') \<and> js_includes (skippedTrackIds s) (field r ''trackId'')))"

definition car_skipped :: "import_state \<Rightarrow> obj \<Rightarrow> bool" where
  \<comment> \<open>\<^verbatim>\<open>m.carId && skippedCarIds.has(m.carId)\<close>\<close>
  "car_skipped s r = (truthy (field r ''carId'') \<and> js_includes (skippedCarIds s) (field r ''carId''))"

text \<open>
  The insertion loops of setups, track notes and maintenance tasks are the same code on
  three files. \<open>rm\<close> is the remapping of the foreign keys, \<open>skip\<close> the test of the preserve
  mode; the loop state is the array, the number of ids generated, and the two counters.
\<close>

definition push_copy ::
  "(nat \<Rightarrow> string) \<Rightarrow> string \<Rightarrow> (obj \<Rightarrow> obj option) \<Rightarrow> obj \<Rightarrow> obj list \<times> nat \<times> nat \<times> nat
     \<Rightarrow> (obj list \<times> nat \<times> nat \<times> nat) option" where
  "push_copy uuidv4 uid rm r = (\<lambda>(xs, n, imported, skipped).
     case rm (fresh_copy (uuidv4 n) uid r) of
       None \<Rightarrow> None
     | Some y \<Rightarrow> Some (xs @ [y], n + 1, imported + 1, skipped))"

definition push_unless ::
  "(obj \<Rightarrow> bool) \<Rightarrow> (nat \<Rightarrow> string) \<Rightarrow> string \<Rightarrow> (obj \<Rightarrow> obj option) \<Rightarrow> obj
     \<Rightarrow> obj list \<times> nat \<times> nat \<times> nat \<Rightarrow> (obj list \<times> nat \<times> nat \<times> nat) option" where
  "push_unless skip uuidv4 uid rm r = (\<lambda>(xs, n, imported, skipped).
     if skip r then Some (xs, n, imported, skipped + 1)
     else (case rm (fresh_copy (uuidv4 n) uid r) of
             None \<Rightarrow> None
           | Some y \<Rightarrow> Some (xs @ [y], n + 1, imported + 1, skipped)))"

definition remap_both :: "runtime \<Rightarrow> import_state \<Rightarrow> obj \<Rightarrow> obj option" where
  "remap_both js s r =
     (case remap js (carIdMap s) ''carId'' r of
        None \<Rightarrow> None
      | Some r' \<Rightarrow> remap js (trackIdMap s) ''trackId'' r')"

definition import_setups ::
  "runtime \<Rightarrow> bool \<Rightarrow> (nat \<Rightarrow> string) \<Rightarrow> string \<Rightarrow> obj list option \<Rightarrow> import_state
     \<Rightarrow> store + import_state" where
  "import_setups js overwrite uuidv4 uid importSetups s =
     (case importSetups of
        None \<Rightarrow> Inr s
      | Some [] \<Rightarrow> Inr s
      | Some incoming \<Rightarrow>
         (case
            (if overwrite then
               fold_opt (push_copy uuidv4 uid (remap_both js s)) incoming
                 (without_ids
                    (filter (tied uid (idmap_values (carIdMap s)) (idmap_values (trackIdMap s)))
                          (setups (db s)))
                    (setups (db s)),
                  uuids s, 0, 0)
             else
               fold_opt (push_unless (parent_skipped s) uuidv4 uid (remap_both js s)) incoming
                 (setups (db s), uuids s, 0, 0))
          of
            None \<Rightarrow> Inl (db s)
          | Some (xs, n, imported, skipped) \<Rightarrow>
              Inr (s\<lparr>db := (db s)\<lparr>setups := xs\<rparr>, uuids := n,
                     summary := (summary s)\<lparr>setupsImported := setupsImported (summary s) + imported,
                                            setupsSkipped := setupsSkipped (summary s) + skipped\<rparr>\<rparr>)))"

definition import_track_notes ::
  "runtime \<Rightarrow> bool \<Rightarrow> (nat \<Rightarrow> string) \<Rightarrow> string \<Rightarrow> obj list option \<Rightarrow> import_state
     \<Rightarrow> store + import_state" where
  "import_track_notes js overwrite uuidv4 uid importTrackNotes s =
     (case importTrackNotes of
        None \<Rightarrow> Inr s
      | Some [] \<Rightarrow> Inr s
      | Some incoming \<Rightarrow>
         (case
            (if overwrite then
               fold_opt (push_copy uuidv4 uid (remap_both js s)) incoming
                 (without_ids
                    (filter (tied uid (idmap_values (carIdMap s)) (idmap_values (trackIdMap s)))
                          (trackNotes (db s)))
                    (trackNotes (db s)),
                  uuids s, 0, 0)
             else
               fold_opt (push_unless (parent_skipped s) uuidv4 uid (remap_both js s)) incoming
                 (trackNotes (db s), uuids s, 0, 0))
          of
            None \<Rightarrow> Inl (db s)
          | Some (xs, n, imported, skipped) \<Rightarrow>
              Inr (s\<lparr>db := (db s)\<lparr>trackNotes := xs\<rparr>, uuids := n,
                     summary := (summary s)\<lparr>trackNotesImported := trackNotesImported (summary s) + imported,
                                            trackNotesSkipped := trackNotesSkipped (summary s) + skipped\<rparr>\<rparr>)))"

definition import_maintenance ::
  "runtime \<Rightarrow> bool \<Rightarrow> (nat \<Rightarrow> string) \<Rightarrow> string \<Rightarrow> obj list option \<Rightarrow> import_state
     \<Rightarrow> store + import_state" where
  "import_maintenance js overwrite uuidv4 uid importMaintenance s =
     (case importMaintenance of
        None \<Rightarrow> Inr s
      | Some [] \<Rightarrow> Inr s
      | Some incoming \<Rightarrow>
         (case
            (if overwrite then
               fold_opt (push_copy uuidv4 uid (remap js (carIdMap s) ''carId'')) incoming
                 (without_ids
                    (filter (tied_car uid (idmap_values (carIdMap s))) (maintenance (db s)))
                    (maintenance (db s)),
                  uuids s, 0, 0)
             else
               fold_opt (push_unless (car_skipped s) uuidv4 uid (remap js (carIdMap s) ''carId'')) incoming
                 (maintenance (db s), uuids s, 0, 0))
          of
            None \<Rightarrow> Inl (db s)
          | Some (xs, n, imported, skipped) \<Rightarrow>
              Inr (s\<lparr>db := (db s)\<lparr>maintenance := xs\<rparr>, uuids := n,
                     summary := (summary s)\<lparr>maintenanceImported := maintenanceImported (summary s) + imported,
                                            maintenanceSkipped := maintenanceSkipped (summary s) + skipped\<rparr>\<rparr>)))"

subsection \<open>Sessions and their corner notes\<close>

definition push_session ::
  "runtime \<Rightarrow> (nat \<Rightarrow> string) \<Rightarrow> string \<Rightarrow> (obj \<Rightarrow> obj option) \<Rightarrow> obj
     \<Rightarrow> obj list \<times> nat \<times> nat \<times> nat \<times> idmap \<Rightarrow> (obj list \<times> nat \<times> nat \<times> nat \<times> idmap) option" where
  \<comment> \<open>\<^verbatim>\<open>newId = uuidv4(); sessionIdMap[session.id] = newId; ...; push(newSession)\<close>\<close>
  "push_session js uuidv4 uid rm r = (\<lambda>(xs, n, imported, skipped, m).
     case key_of js (field r ''id'') of
       None \<Rightarrow> None
     | Some k \<Rightarrow>
        (case rm (fresh_copy (uuidv4 n) uid r) of
           None \<Rightarrow> None
         | Some y \<Rightarrow> Some (xs @ [y], n + 1, imported + 1, skipped,
                           idmap_set m k (Some (JStr (uuidv4 n))))))"

definition push_session_unless ::
  "(obj \<Rightarrow> bool) \<Rightarrow> runtime \<Rightarrow> (nat \<Rightarrow> string) \<Rightarrow> string \<Rightarrow> (obj \<Rightarrow> obj option) \<Rightarrow> obj
     \<Rightarrow> obj list \<times> nat \<times> nat \<times> nat \<times> idmap \<Rightarrow> (obj list \<times> nat \<times> nat \<times> nat \<times> idmap) option" where
  "push_session_unless skip js uuidv4 uid rm r = (\<lambda>(xs, n, imported, skipped, m).
     if skip r then Some (xs, n, imported, skipped + 1, m)
     else
       (case key_of js (field r ''id'') of
          None \<Rightarrow> None
        | Some k \<Rightarrow>
           (case rm (fresh_copy (uuidv4 n) uid r) of
              None \<Rightarrow> None
            | Some y \<Rightarrow> Some (xs @ [y], n + 1, imported + 1, skipped,
                              idmap_set m k (Some (JStr (uuidv4 n)))))))"

definition push_corner_note ::
  "runtime \<Rightarrow> (nat \<Rightarrow> string) \<Rightarrow> string \<Rightarrow> idmap \<Rightarrow> obj \<Rightarrow> obj list \<times> nat \<times> nat
     \<Rightarrow> (obj list \<times> nat \<times> nat) option" where
  \<comment> \<open>overwrite mode: every corner note of the envelope is inserted\<close>
  "push_corner_note js uuidv4 uid m cn = (\<lambda>(xs, n, imported).
     case remap js m ''sessionId'' (fresh_copy (uuidv4 n) uid cn) of
       None \<Rightarrow> None
     | Some y \<Rightarrow> Some (xs @ [y], n + 1, imported + 1))"

definition push_corner_note_mapped ::
  "runtime \<Rightarrow> (nat \<Rightarrow> string) \<Rightarrow> string \<Rightarrow> idmap \<Rightarrow> obj \<Rightarrow> obj list \<times> nat \<times> nat
     \<Rightarrow> (obj list \<times> nat \<times> nat) option" where
  \<comment> \<open>preserve mode: \<^verbatim>\<open>if (!sessionIdMap[cn.sessionId]) continue;\<close>, then
      \<^verbatim>\<open>newCn.sessionId = sessionIdMap[newCn.sessionId] || newCn.sessionId\<close>\<close>
  "push_corner_note_mapped js uuidv4 uid m cn = (\<lambda>(xs, n, imported).
     case key_of js (field cn ''sessionId'') of
       None \<Rightarrow> None
     | Some k \<Rightarrow>
        if \<not> truthy_property (idmap_get js m k) then Some (xs, n, imported)
        else
          (case key_of js (field (fresh_copy (uuidv4 n) uid cn) ''sessionId'') of
             None \<Rightarrow> None
           | Some k' \<Rightarrow>
               Some (xs @ [set_field ''sessionId''
                             (or_stored (idmap_get js m k')
                                        (field (fresh_copy (uuidv4 n) uid cn) ''sessionId''))
                             (fresh_copy (uuidv4 n) uid cn)],
                     n + 1, imported + 1)))"

definition import_sessions ::
  "runtime \<Rightarrow> bool \<Rightarrow> (nat \<Rightarrow> string) \<Rightarrow> string \<Rightarrow> obj list option \<Rightarrow> obj list option
     \<Rightarrow> import_state \<Rightarrow> store + import_state" where
  \<comment> \<open>\<^verbatim>\<open>sessions.json\<close> is written after the loop over the sessions and before the loop
      over the corner notes\<close>
  "import_sessions js overwrite uuidv4 uid importSessions importCornerNotes s =
     (case importSessions of
        None \<Rightarrow> Inr s
      | Some [] \<Rightarrow> Inr s
      | Some incoming \<Rightarrow>
         (if overwrite then
            (let removed = filter (tied uid (idmap_values (carIdMap s)) (idmap_values (trackIdMap s)))
                             (sessions (db s));
                 toRemove = map (\<lambda>r. field r ''id'') removed;
                 existingCornerNotes =
                   filter (\<lambda>cn. \<not> js_includes toRemove (field cn ''sessionId'') \<or> \<not> owner_is uid cn)
                     (cornerNotes (db s))
             in case fold_opt (push_session js uuidv4 uid (remap_both js s)) incoming
                       (without_ids removed (sessions (db s)), uuids s, 0, 0, sessionIdMap s)
                of
                  None \<Rightarrow> Inl (db s)
                | Some (xs, n, imported, skipped, m) \<Rightarrow>
                  (case fold_opt (push_corner_note js uuidv4 uid m)
                          (case importCornerNotes of None \<Rightarrow> [] | Some cns \<Rightarrow> cns)
                          (existingCornerNotes, n, 0)
                   of
                     None \<Rightarrow> Inl ((db s)\<lparr>sessions := xs\<rparr>)
                   | Some (cs, n', cnImported) \<Rightarrow>
                       Inr (s\<lparr>db := (db s)\<lparr>sessions := xs, cornerNotes := cs\<rparr>, uuids := n',
                              sessionIdMap := m,
                              summary := (summary s)
                                \<lparr>sessionsImported := sessionsImported (summary s) + imported,
                                 cornerNotesImported := cornerNotesImported (summary s) + cnImported\<rparr>\<rparr>)))
          else
            (case fold_opt (push_session_unless (parent_skipped s) js uuidv4 uid (remap_both js s)) incoming
                    (sessions (db s), uuids s, 0, 0, sessionIdMap s)
             of
               None \<Rightarrow> Inl (db s)
             | Some (xs, n, imported, skipped, m) \<Rightarrow>
               (case fold_opt (push_corner_note_mapped js uuidv4 uid m)
                       (case importCornerNotes of None \<Rightarrow> [] | Some cns \<Rightarrow> cns)
                       (cornerNotes (db s), n, 0)
                of
                  None \<Rightarrow> Inl ((db s)\<lparr>sessions := xs\<rparr>)
                | Some (cs, n', cnImported) \<Rightarrow>
                    Inr (s\<lparr>db := (db s)\<lparr>sessions := xs, cornerNotes := cs\<rparr>, uuids := n',
                           sessionIdMap := m,
                           summary := (summary s)
                             \<lparr>sessionsImported := sessionsImported (summary s) + imported,
                              sessionsSkipped := sessionsSkipped (summary s) + skipped,
                              cornerNotesImported := cornerNotesImported (summary s) + cnImported\<rparr>\<rparr>)))))"

subsection \<open>The route\<close>

definition import_modes :: "jval option list" where
  \<comment> \<open>\<^verbatim>\<open>['overwrite', 'preserve']\<close>\<close>
  "import_modes = [Some (JStr ''overwrite''), Some (JStr ''preserve'')]"

definition and_then ::
  "store + import_state \<Rightarrow> (import_state \<Rightarrow> store + import_state) \<Rightarrow> store + import_state" where
  \<comment> \<open>the next block runs when no exception has ended the request\<close>
  "and_then r block = (case r of Inl st \<Rightarrow> Inl st | Inr s \<Rightarrow> block s)"

definition import_all ::
  "runtime \<Rightarrow> bool \<Rightarrow> (nat \<Rightarrow> string) \<Rightarrow> (string \<Rightarrow> string) \<Rightarrow> string \<Rightarrow> export_data \<Rightarrow> store
     \<Rightarrow> store + import_state" where
  "import_all js overwrite uuidv4 extname uid importData st =
     and_then (and_then (and_then (and_then (and_then
       (import_cars js overwrite uuidv4 uid (d_cars importData) (start_import st))
       (import_tracks js overwrite uuidv4 extname uid (d_tracks importData)))
       (import_setups js overwrite uuidv4 uid (d_setups importData)))
       (import_sessions js overwrite uuidv4 uid (d_sessions importData) (d_cornerNotes importData)))
       (import_track_notes js overwrite uuidv4 uid (d_trackNotes importData)))
       (import_maintenance js overwrite uuidv4 uid (d_maintenance importData))"

definition post_import ::
  "runtime \<Rightarrow> (nat \<Rightarrow> string) \<Rightarrow> (string \<Rightarrow> string) \<Rightarrow> string \<Rightarrow> envelope option \<Rightarrow> jval option
     \<Rightarrow> store \<Rightarrow> (error + import_summary) \<times> store" where
  \<comment> \<open>\<^verbatim>\<open>POST /api/import\<close>\<close>
  "post_import js uuidv4 extname uid importEnvelope mode st =
     (case importEnvelope of
        None \<Rightarrow> (Inl BadRequest, st)
      | Some env \<Rightarrow>
         (case data env of
            None \<Rightarrow> (Inl BadRequest, st)
          | Some importData \<Rightarrow>
             if \<not> truthy (version env) then (Inl BadRequest, st)
             else if \<not> js_includes import_modes mode then (Inl BadRequest, st)
             else
               (case import_all js (strict_eq mode (Some (JStr ''overwrite''))) uuidv4 extname uid
                       importData st of
                  Inl st' \<Rightarrow> (Inl ServerError, st')
                | Inr s \<Rightarrow> (Inr (summary s), db s))))"

section \<open>Vocabulary of the properties, and a small store\<close>

definition others :: "string \<Rightarrow> obj list \<Rightarrow> obj list" where
  \<comment> \<open>the records of a collection that belong to other users than \<open>uid\<close>, in order\<close>
  "others uid xs = filter (\<lambda>r. field r ''userId'' \<noteq> Some (JStr uid)) xs"

definition unique_ids :: "obj list \<Rightarrow> bool" where
  \<comment> \<open>no two records of the collection have the same id\<close>
  "unique_ids xs = distinct (map (\<lambda>r. field r ''id'') xs)"

text \<open>
  Two users. Ann (\<open>u1\<close>) has a car, a track, and one record of every dependent kind that
  refers to them; Bob (\<open>u2\<close>) has a car and a setup that names Ann's car and track.
\<close>

definition ann_car :: obj where
  "ann_car = [(''id'', JStr ''c1''), (''userId'', JStr ''u1''), (''name'', JStr ''MX-5''),
              (''manufacturer'', JStr ''Mazda''), (''series'', JStr ''Cup'')]"

definition bob_car :: obj where
  "bob_car = [(''id'', JStr ''c2''), (''userId'', JStr ''u2''), (''name'', JStr ''Elise''),
              (''manufacturer'', JStr ''Lotus''), (''series'', JStr ''Cup'')]"

definition ann_track :: obj where
  "ann_track = [(''id'', JStr ''t1''), (''userId'', JStr ''u1''), (''name'', JStr ''Spa''),
                (''location'', JStr ''BE'')]"

definition ann_setup :: obj where
  "ann_setup = [(''id'', JStr ''s1''), (''userId'', JStr ''u1''), (''carId'', JStr ''c1''),
                (''trackId'', JStr ''t1''), (''name'', JStr ''dry'')]"

definition bob_setup :: obj where
  "bob_setup = [(''id'', JStr ''s2''), (''userId'', JStr ''u2''), (''carId'', JStr ''c1''),
                (''trackId'', JStr ''t1''), (''name'', JStr ''wet'')]"

definition ann_session :: obj where
  "ann_session = [(''id'', JStr ''q1''), (''userId'', JStr ''u1''), (''carId'', JStr ''c1''),
                  (''trackId'', JStr ''t1''), (''name'', JStr ''FP1'')]"

definition ann_corner :: obj where
  "ann_corner = [(''id'', JStr ''n1''), (''userId'', JStr ''u1''), (''sessionId'', JStr ''q1''),
                 (''cornerName'', JStr ''T1''), (''entry'', JStr ''late''), (''apex'', JStr []),
                 (''exit'', JStr [])]"

definition ann_track_note :: obj where
  "ann_track_note = [(''id'', JStr ''k1''), (''userId'', JStr ''u1''), (''carId'', JStr ''c1''),
                     (''trackId'', JStr ''t1''), (''notes'', JStr ''bumpy'')]"

definition ann_task :: obj where
  "ann_task = [(''id'', JStr ''m1''), (''userId'', JStr ''u1''), (''carId'', JStr ''c1''),
               (''name'', JStr ''oil'')]"

definition ann :: obj where
  "ann = [(''id'', JStr ''u1''), (''username'', JStr ''ann''), (''passwordHash'', JStr ''h1'')]"

definition bob :: obj where
  "bob = [(''id'', JStr ''u2''), (''username'', JStr ''bob''), (''passwordHash'', JStr ''h2'')]"

definition paddock :: store where
  "paddock = \<lparr>users = [ann, bob], cars = [ann_car, bob_car], setups = [ann_setup, bob_setup],
     tracks = [ann_track], sessions = [ann_session], cornerNotes = [ann_corner],
     trackNotes = [ann_track_note], maintenance = [ann_task]\<rparr>"

definition check_hash :: "jval option \<Rightarrow> jval option \<Rightarrow> bool option" where
  \<comment> \<open>a stand-in for \<^verbatim>\<open>bcrypt.compare\<close> in the examples: the hash of \<open>pw\<close> is \<open>h1\<close>\<close>
  "check_hash password hash =
     (case password of
        Some (JStr p) \<Rightarrow> Some (p = ''pw'' \<and> hash = Some (JStr ''h1''))
      | _ \<Rightarrow> None)"

text \<open>
  What an update of the record \<open>c\<close> with the input \<open>body\<close> stores as \<open>c'\<close>, per entity kind.
\<close>

definition update_spec :: "entity \<Rightarrow> obj \<Rightarrow> obj \<Rightarrow> obj \<Rightarrow> bool" where
  "update_spec kind body c c' =
     (field c' ''id'' = field c ''id'' \<and> field c' ''userId'' = field c ''userId''
      \<and> (kind = Setup \<or> kind = MaintenanceTask \<longrightarrow>
           (\<forall>k. k \<noteq> ''id'' \<and> k \<noteq> ''userId'' \<longrightarrow>
                field c' k = (case field body k of Some v \<Rightarrow> Some v | None \<Rightarrow> field c k)))
      \<and> (kind = Car \<longrightarrow>
           (\<forall>k. field c' k = (if k \<in> {''name'', ''manufacturer'', ''series''}
                               then nullish (field body k) (field c k) else field c k)))
      \<and> (kind = TrackNote \<longrightarrow>
           (\<forall>k. field c' k = (if k \<in> {''carId'', ''trackId'', ''notes''}
                               then nullish (field body k) (field c k) else field c k)))
      \<and> (kind = Session \<longrightarrow>
           (\<forall>k. field c' k = (if k \<in> set session_fields
                               then nullish (field body k) (field c k) else field c k)))
      \<and> (kind = Track \<longrightarrow>
           (\<forall>k. k \<notin> {''imageUrl'', ''corners'', ''circuitNotes''} \<longrightarrow>
                field c' k = (if k \<in> {''name'', ''location'', ''length''}
                              then nullish (field body k) (field c k) else field c k))))"

definition refs_selected :: "string \<Rightarrow> jval list \<Rightarrow> jval list \<Rightarrow> store \<Rightarrow> obj \<Rightarrow> bool" where
  \<comment> \<open>a record of the user whose \<^verbatim>\<open>carId\<close> is one of the selected cars of the user, or
      whose \<^verbatim>\<open>trackId\<close> is one of the selected tracks of the user\<close>
  "refs_selected uid carIds trackIds st s =
     (child_of ''carId'' uid (selected_ids uid carIds (cars st)) s \<or>
      child_of ''trackId'' uid (selected_ids uid trackIds (tracks st)) s)"





definition string_ids :: "obj list \<Rightarrow> bool" where
  \<comment> \<open>the ids are non-empty strings, as \<^verbatim>\<open>uuidv4()\<close> makes them\<close>
  "string_ids xs = list_all (\<lambda>r. case field r ''id'' of Some (JStr i) \<Rightarrow> i \<noteq> [] | _ \<Rightarrow> False) xs"




definition new_ids :: "nat \<Rightarrow> string" where
  "new_ids n = ''new'' @ digits n"

definition ext_of :: "string \<Rightarrow> string" where
  "ext_of url = []"

definition example_runtime :: runtime where
  \<comment> \<open>the runtime of the examples. Its two components are never consulted in them: no id
      of the examples is a number, and no id map of the examples gets an array as its
      prototype.\<close>
  "example_runtime = \<lparr>number_string = (\<lambda>x. []), array_prototype = []\<rparr>"

text \<open>
  The setups of a user that name a car; a foreign key that is falsy or a string that names
  no property of \<^verbatim>\<open>Object.prototype\<close>; and the copies of the records \<open>xs\<close> with the ids
  \<open>uuidv4 0\<close>, \<open>uuidv4 1\<close>, ..., the user's id and the car \<open>c\<close>.
\<close>

definition referencing :: "string \<Rightarrow> string \<Rightarrow> obj list \<Rightarrow> obj list" where
  "referencing uid c xs = filter (\<lambda>s. owner_is uid s \<and> field s ''carId'' = Some (JStr c)) xs"

definition plain_reference :: "jval option \<Rightarrow> bool" where
  "plain_reference v = (case v of Some (JStr t) \<Rightarrow> t \<notin> set object_prototype | _ \<Rightarrow> \<not> truthy v)"

definition copies :: "(nat \<Rightarrow> string) \<Rightarrow> string \<Rightarrow> string \<Rightarrow> obj list \<Rightarrow> obj list" where
  "copies uuidv4 uid c xs =
     map (\<lambda>(n, e). set_field ''carId'' (Some (JStr c)) (fresh_copy (uuidv4 n) uid e)) (enumerate 0 xs)"

text \<open>
  A store in which Ann has a second car with the name, the manufacturer and the series of
  her car \<open>c1\<close>, stored before it.
\<close>

definition twin_car :: obj where
  "twin_car = [(''id'', JStr ''c0''), (''userId'', JStr ''u1''), (''name'', JStr ''MX-5''),
               (''manufacturer'', JStr ''Mazda''), (''series'', JStr ''Cup'')]"

definition twin_paddock :: store where
  "twin_paddock = paddock\<lparr>cars := [twin_car, ann_car, bob_car]\<rparr>"

definition only_setups :: export_flags where
  "only_setups = \<lparr>includeSetups = True, includeSessions = False, includeMaintenance = False,
                   includeTrackNotes = False\<rparr>"

definition files :: "store + import_state \<Rightarrow> store" where
  \<comment> \<open>the content of the files after a block of the import\<close>
  "files r = (case r of Inl st \<Rightarrow> st | Inr s \<Rightarrow> db s)"

section \<open>Properties\<close>

subsection \<open>Comparisons with a string\<close>

lemma refers_iff:
  "refers fk rid uid s \<longleftrightarrow> field s fk = Some (JStr rid) \<and> field s ''userId'' = Some (JStr uid)"
  by (auto simp: refers_def strict_eq_def)

lemma is_record_iff:
  "is_record rid uid s \<longleftrightarrow> field s ''id'' = Some (JStr rid) \<and> field s ''userId'' = Some (JStr uid)"
  by (auto simp: is_record_def strict_eq_def)

lemma owner_is_iff: "owner_is uid s \<longleftrightarrow> field s ''userId'' = Some (JStr uid)"
  by (auto simp: owner_is_def strict_eq_def)

lemma is_user_iff: "is_user uid u \<longleftrightarrow> field u ''id'' = Some (JStr uid)"
  by (auto simp: is_user_def strict_eq_def)

subsection \<open>The array operations\<close>

lemma filter_splice_first:
  "(\<And>x. P x \<Longrightarrow> \<not> Q x) \<Longrightarrow> filter Q (splice_first P xs) = filter Q xs"
  by (induction xs) auto

lemma others_filter:
  "(\<And>x. field x ''userId'' \<noteq> Some (JStr uid) \<Longrightarrow> P x) \<Longrightarrow> others uid (filter P xs) = others uid xs"
  unfolding others_def by (induction xs) auto

lemma others_splice_first:
  "(\<And>x. P x \<Longrightarrow> field x ''userId'' = Some (JStr uid)) \<Longrightarrow> others uid (splice_first P xs) = others uid xs"
  unfolding others_def by (rule filter_splice_first) auto

lemma assign_first_id: "assign_first P (\<lambda>x. x) xs = xs"
  by (induction xs) auto

lemma find_split:
  "List.find P xs = Some x \<Longrightarrow>
     \<exists>pre post. xs = pre @ x # post \<and> P x \<and> (\<forall>y \<in> set pre. \<not> P y)"
proof (induction xs)
  case Nil
  then show ?case by simp
next
  case (Cons a xs)
  show ?case
  proof (cases "P a")
    case True
    with Cons.prems have "a = x" by simp
    with True have "a # xs = [] @ x # xs \<and> P x \<and> (\<forall>y \<in> set []. \<not> P y)" by simp
    then show ?thesis by blast
  next
    case False
    with Cons.prems have "List.find P xs = Some x" by simp
    from Cons.IH[OF this] obtain pre post
      where "xs = pre @ x # post" "P x" "\<forall>y \<in> set pre. \<not> P y" by blast
    with False have "a # xs = (a # pre) @ x # post \<and> P x \<and> (\<forall>y \<in> set (a # pre). \<not> P y)" by simp
    then show ?thesis by blast
  qed
qed

lemma assign_first_split:
  "(\<forall>y \<in> set pre. \<not> P y) \<Longrightarrow> P x \<Longrightarrow> assign_first P f (pre @ x # post) = pre @ f x # post"
  by (induction pre) auto

lemma find_None_list_ex: "List.find P xs = None \<longleftrightarrow> \<not> list_ex P xs"
  by (auto simp: find_None_iff list_ex_iff)

lemma store_same [simp]:
  "st\<lparr>cars := cars st\<rparr> = st" "st\<lparr>setups := setups st\<rparr> = st" "st\<lparr>tracks := tracks st\<rparr> = st"
  "st\<lparr>trackNotes := trackNotes st\<rparr> = st" "st\<lparr>cornerNotes := cornerNotes st\<rparr> = st"
  "st\<lparr>sessions := sessions st\<rparr> = st" "st\<lparr>maintenance := maintenance st\<rparr> = st"
  by simp_all

subsection \<open>Deleting a car\<close>

lemma delete_car_success:
  assumes "delete_car uid rid st = (Inr r, st')"
  shows "st' = st\<lparr>cars := splice_first (is_record rid uid) (cars st),
           setups := filter (\<lambda>s. \<not> refers ''carId'' rid uid s) (setups st),
           trackNotes := filter (\<lambda>tn. \<not> refers ''carId'' rid uid tn) (trackNotes st),
           maintenance := filter (\<lambda>m. \<not> refers ''carId'' rid uid m) (maintenance st)\<rparr>"
  using assms by (auto simp: delete_car_def split: if_splits)

text \<open>
  C4. After a car of the user is deleted, no setup, maintenance task or track note of the
  user has the car's id as \<open>carId\<close>; the three collections only lost records (none was
  changed); and in every collection the records of the other users are what they were,
  whatever \<open>carId\<close> they have.
\<close>

theorem delete_car_cascade:
  assumes "delete_car uid rid st = (Inr r, st')"
  shows "(\<forall>s \<in> set (setups st') \<union> set (maintenance st') \<union> set (trackNotes st').
            \<not> (field s ''userId'' = Some (JStr uid) \<and> field s ''carId'' = Some (JStr rid)))
       \<and> set (setups st') \<subseteq> set (setups st)
       \<and> set (maintenance st') \<subseteq> set (maintenance st)
       \<and> set (trackNotes st') \<subseteq> set (trackNotes st)
       \<and> others uid (setups st') = others uid (setups st)
       \<and> others uid (maintenance st') = others uid (maintenance st)
       \<and> others uid (trackNotes st') = others uid (trackNotes st)
       \<and> others uid (cars st') = others uid (cars st)
       \<and> tracks st' = tracks st \<and> sessions st' = sessions st
       \<and> cornerNotes st' = cornerNotes st \<and> users st' = users st"
proof -
  note st' = delete_car_success[OF assms]
  have gone: "\<forall>s \<in> set (setups st') \<union> set (maintenance st') \<union> set (trackNotes st').
            \<not> (field s ''userId'' = Some (JStr uid) \<and> field s ''carId'' = Some (JStr rid))"
    unfolding st' by (auto simp: refers_iff)
  have sub: "set (setups st') \<subseteq> set (setups st)" "set (maintenance st') \<subseteq> set (maintenance st)"
     "set (trackNotes st') \<subseteq> set (trackNotes st)"
    unfolding st' by auto
  have oth: "others uid (setups st') = others uid (setups st)"
     "others uid (maintenance st') = others uid (maintenance st)"
     "others uid (trackNotes st') = others uid (trackNotes st)"
    unfolding st' by (simp_all add: others_filter refers_iff)
  have "others uid (splice_first (is_record rid uid) (cars st)) = others uid (cars st)"
    by (rule others_splice_first) (simp add: is_record_iff)
  then have ocars: "others uid (cars st') = others uid (cars st)"
    unfolding st' by simp
  have rest: "tracks st' = tracks st" "sessions st' = sessions st"
       "cornerNotes st' = cornerNotes st" "users st' = users st"
    unfolding st' by simp_all
  show ?thesis using gone sub oth ocars rest by blast
qed

lemmas paddock_defs = paddock_def ann_def bob_def ann_car_def bob_car_def ann_track_def
  ann_setup_def bob_setup_def ann_session_def ann_corner_def ann_track_note_def ann_task_def

lemmas js_defs = field_def strict_eq_def is_record_def refers_def owner_is_def is_user_def
  set_field_def js_includes_def or_else_def

theorem delete_car_cascade_witness:
  "delete_car ''u1'' ''c1'' paddock =
     (Inr NoContent, paddock\<lparr>cars := [bob_car], setups := [bob_setup], trackNotes := [], maintenance := []\<rparr>)
   \<and> others ''u1'' [bob_setup] = others ''u1'' (setups paddock)"
proof -
  have h: "delete_car ''u1'' ''c1'' paddock =
     (Inr NoContent, paddock\<lparr>cars := [bob_car], setups := [bob_setup], trackNotes := [], maintenance := []\<rparr>)"
    by (simp add: delete_car_def paddock_defs js_defs)
  show ?thesis using h delete_car_cascade[OF h] by simp
qed

subsection \<open>Deleting a track\<close>

lemma delete_track_success:
  assumes "delete_track uid rid st = (Inr r, st')"
  shows "st' = st\<lparr>tracks := splice_first (is_record rid uid) (tracks st),
           trackNotes := filter (\<lambda>tn. \<not> refers ''trackId'' rid uid tn) (trackNotes st),
           setups := map (\<lambda>s. if refers ''trackId'' rid uid s
                               then set_field ''trackId'' (Some JNull) s else s) (setups st)\<rparr>"
  using assms by (auto simp: delete_track_def split: if_splits)

lemma field_set_field: "field (set_field k v r) k' = (if k' = k then v else field r k')"
  by (cases v) (auto simp: set_field_def field_def update_conv' delete_conv')

lemma delete_track_setups_and_notes:
  assumes "delete_track uid rid st = (Inr r, st')"
  shows "(\<forall>s \<in> set (setups st') \<union> set (trackNotes st').
            \<not> (field s ''userId'' = Some (JStr uid) \<and> field s ''trackId'' = Some (JStr rid)))
       \<and> length (setups st') = length (setups st)
       \<and> sessions st' = sessions st"
  unfolding delete_track_success[OF assms]
  by (auto simp: refers_iff field_set_field)

text \<open>
  C1. The claim holds for setups and track notes (lemma \<open>delete_track_setups_and_notes\<close>),
  and fails for sessions: the route does not touch \<^verbatim>\<open>sessions.json\<close>. Ann deletes her
  track \<open>t1\<close>; her session still names it, and no track has that id any more.
\<close>

theorem delete_track_leaves_session:
  "delete_track ''u1'' ''t1'' paddock =
     (Inr NoContent,
      paddock\<lparr>tracks := [], trackNotes := [],
              setups := [[(''id'', JStr ''s1''), (''userId'', JStr ''u1''), (''carId'', JStr ''c1''),
                          (''trackId'', JNull), (''name'', JStr ''dry'')], bob_setup]\<rparr>)
   \<and> sessions paddock = [ann_session]
   \<and> field ann_session ''userId'' = Some (JStr ''u1'')
   \<and> field ann_session ''trackId'' = Some (JStr ''t1'')"
  by (simp add: delete_track_def paddock_defs js_defs)

subsection \<open>Deleting the account\<close>

lemma delete_user_result:
  "delete_user compare uid body st = (res, st') \<Longrightarrow>
     (\<exists>e. res = Inl e \<and> st' = st) \<or> (\<exists>r. res = Inr r \<and> st' = purge_user uid st)"
  unfolding delete_user_def
  by (simp split: if_splits option.splits bool.splits) blast+

lemma delete_user_verified:
  assumes "truthy (field body ''password'')" and "List.find (is_user uid) (users st) = Some user"
  shows "compare (field body ''password'') (field user ''passwordHash'') = Some False \<Longrightarrow>
           delete_user compare uid body st = (Inl Unauthorized, st)"
    and "compare (field body ''password'') (field user ''passwordHash'') = Some True \<Longrightarrow>
           delete_user compare uid body st =
             (Inr (Ok (JObj [(''message'', JStr ''Account deleted successfully'')])), purge_user uid st)"
  using assms by (simp_all add: delete_user_def)

lemma purge_user_collection:
  "x \<in> set (collection kind (purge_user uid st)) \<Longrightarrow> field x ''userId'' \<noteq> Some (JStr uid)"
  by (cases kind) (simp_all add: purge_user_def owner_is_iff)

lemma purge_user_users:
  "u \<in> set (users (purge_user uid st)) \<Longrightarrow> field u ''id'' \<noteq> Some (JStr uid)"
  by (simp add: purge_user_def is_user_iff)

text \<open>
  C6. Whenever the account deletion answers with an error, every collection is what it
  was, and a password that fails the verification is answered with 401. When the deletion
  succeeds, no record of any of the seven collections has the user's \<open>userId\<close> and no user
  record has the user's id. A password that passes the verification makes it succeed.
\<close>

theorem delete_user_all_or_nothing:
  assumes "delete_user compare uid body st = (res, st')"
  shows "(\<forall>e. res = Inl e \<longrightarrow> st' = st)
       \<and> (\<forall>user. truthy (field body ''password'') \<and> List.find (is_user uid) (users st) = Some user
             \<and> compare (field body ''password'') (field user ''passwordHash'') = Some False
             \<longrightarrow> res = Inl Unauthorized)
       \<and> (\<forall>user. truthy (field body ''password'') \<and> List.find (is_user uid) (users st) = Some user
             \<and> compare (field body ''password'') (field user ''passwordHash'') = Some True
             \<longrightarrow> (\<exists>r. res = Inr r))
       \<and> (\<forall>r. res = Inr r \<longrightarrow>
             (\<forall>kind. \<forall>x \<in> set (collection kind st'). field x ''userId'' \<noteq> Some (JStr uid))
             \<and> (\<forall>u \<in> set (users st'). field u ''id'' \<noteq> Some (JStr uid)))"
proof -
  from delete_user_result[OF assms]
  have alt: "(\<exists>e. res = Inl e \<and> st' = st) \<or> (\<exists>r. res = Inr r \<and> st' = purge_user uid st)" .
  have a: "\<forall>e. res = Inl e \<longrightarrow> st' = st"
    using alt by auto
  have b: "\<forall>user. truthy (field body ''password'') \<and> List.find (is_user uid) (users st) = Some user
             \<and> compare (field body ''password'') (field user ''passwordHash'') = Some False
             \<longrightarrow> res = Inl Unauthorized"
    using assms delete_user_verified(1)[of body uid st _ compare] by auto
  have c: "\<forall>user. truthy (field body ''password'') \<and> List.find (is_user uid) (users st) = Some user
             \<and> compare (field body ''password'') (field user ''passwordHash'') = Some True
             \<longrightarrow> (\<exists>r. res = Inr r)"
    using assms delete_user_verified(2)[of body uid st _ compare] by auto
  have d: "\<forall>r. res = Inr r \<longrightarrow>
             (\<forall>kind. \<forall>x \<in> set (collection kind st'). field x ''userId'' \<noteq> Some (JStr uid))
             \<and> (\<forall>u \<in> set (users st'). field u ''id'' \<noteq> Some (JStr uid))"
    using alt purge_user_collection purge_user_users by blast
  show ?thesis using a b c d by (intro conjI)
qed

theorem delete_user_all_or_nothing_witness:
  "delete_user check_hash ''u1'' [(''password'', JStr ''no'')] paddock = (Inl Unauthorized, paddock)
   \<and> delete_user check_hash ''u1'' [(''password'', JStr ''pw'')] paddock =
       (Inr (Ok (JObj [(''message'', JStr ''Account deleted successfully'')])),
        \<lparr>users = [bob], cars = [bob_car], setups = [bob_setup], tracks = [], sessions = [],
         cornerNotes = [], trackNotes = [], maintenance = []\<rparr>)
   \<and> field bob_car ''userId'' \<noteq> Some (JStr ''u1'')
   \<and> field bob ''id'' \<noteq> Some (JStr ''u1'')"
proof -
  let ?st' = "\<lparr>users = [bob], cars = [bob_car], setups = [bob_setup], tracks = [], sessions = [],
         cornerNotes = [], trackNotes = [], maintenance = []\<rparr>"
  have h1: "delete_user check_hash ''u1'' [(''password'', JStr ''no'')] paddock = (Inl Unauthorized, paddock)"
    by (simp add: delete_user_def check_hash_def paddock_defs js_defs)
  have h2: "delete_user check_hash ''u1'' [(''password'', JStr ''pw'')] paddock =
       (Inr (Ok (JObj [(''message'', JStr ''Account deleted successfully'')])), ?st')"
    by (simp add: delete_user_def purge_user_def check_hash_def paddock_defs js_defs)
  from delete_user_all_or_nothing[OF h2]
  have gone: "(\<forall>kind. \<forall>x \<in> set (collection kind ?st'). field x ''userId'' \<noteq> Some (JStr ''u1''))
        \<and> (\<forall>u \<in> set (users ?st'). field u ''id'' \<noteq> Some (JStr ''u1''))"
    by blast
  from gone have "\<forall>x \<in> set (collection Car ?st'). field x ''userId'' \<noteq> Some (JStr ''u1'')"
    by blast
  then have a: "field bob_car ''userId'' \<noteq> Some (JStr ''u1'')" by simp
  from gone have b: "field bob ''id'' \<noteq> Some (JStr ''u1'')" by simp
  from h1 h2 a b show ?thesis by (intro conjI)
qed

subsection \<open>A record of another user\<close>

lemma no_record:
  assumes "\<not> list_ex (is_record rid uid) xs"
  shows "get_record xs uid rid = Inl NotFound"
    and "put_record f xs uid rid = (Inl NotFound, xs)"
    and "delete_record xs uid rid = (Inl NotFound, xs)"
    and "List.find (is_record rid uid) xs = None"
proof -
  have none: "List.find (is_record rid uid) xs = None"
    using assms by (simp add: find_None_list_ex)
  show "List.find (is_record rid uid) xs = None" by (rule none)
  show "get_record xs uid rid = Inl NotFound" by (simp add: get_record_def none)
  show "put_record f xs uid rid = (Inl NotFound, xs)" by (simp add: put_record_def none)
  show "delete_record xs uid rid = (Inl NotFound, xs)" using assms by (simp add: delete_record_def)
qed

lemma foreign_record:
  assumes "unique_ids xs" and "r \<in> set xs" and "field r ''id'' = Some (JStr rid)"
      and "field r ''userId'' = Some (JStr u1)" and "u2 \<noteq> u1"
  shows "\<not> list_ex (is_record rid u2) xs"
proof
  assume "list_ex (is_record rid u2) xs"
  then obtain x where x: "x \<in> set xs" "is_record rid u2 x" by (auto simp: list_ex_iff)
  from assms(1) have "inj_on (\<lambda>r. field r ''id'') (set xs)"
    by (simp add: unique_ids_def distinct_map)
  moreover from x assms(3) have "field x ''id'' = field r ''id''" by (simp add: is_record_iff)
  ultimately have "x = r" using x(1) assms(2) by (rule inj_onD)
  with x assms(4,5) show False by (simp add: is_record_iff)
qed

text \<open>
  C7. A record \<open>r\<close> of user \<open>u1\<close> with id \<open>rid\<close> is in the collection of its kind, where ids
  are unique. Then \<^verbatim>\<open>GET\<close>, \<^verbatim>\<open>PUT\<close> and \<^verbatim>\<open>DELETE\<close> of that id by another user \<open>u2\<close>
  are all answered with 404, the answer for an id that does not exist, and leave every
  collection as it was.
\<close>

theorem cross_user_not_found:
  assumes "r \<in> set (collection kind st)" and "unique_ids (collection kind st)"
      and "field r ''id'' = Some (JStr rid)" and "field r ''userId'' = Some (JStr u1)"
      and "u2 \<noteq> u1"
  shows "get_entity kind u2 rid st = Inl NotFound
       \<and> put_entity download kind u2 rid body st = (Inl NotFound, st)
       \<and> delete_entity kind u2 rid st = (Inl NotFound, st)"
proof -
  have none: "\<not> list_ex (is_record rid u2) (collection kind st)"
    using foreign_record[OF assms(2,1,3,4,5)] .
  show ?thesis
  proof (cases kind)
    case Car
    with none show ?thesis
      by (simp add: get_car_def put_car_def delete_car_def no_record)
  next
    case Setup
    with none show ?thesis
      by (simp add: get_setup_def put_setup_def delete_setup_def no_record)
  next
    case Track
    with none show ?thesis
      by (simp add: get_track_def put_track_def delete_track_def no_record)
  next
    case TrackNote
    with none show ?thesis
      by (simp add: get_track_note_def put_track_note_def delete_track_note_def no_record)
  next
    case CornerNote
    with none show ?thesis
      by (simp add: get_corner_note_def delete_corner_note_def no_record)
  next
    case Session
    with none show ?thesis
      by (simp add: get_session_def put_session_def delete_session_def no_record)
  next
    case MaintenanceTask
    with none show ?thesis
      by (simp add: get_maintenance_def put_maintenance_def delete_maintenance_def no_record)
  qed
qed

theorem cross_user_not_found_witness:
  "ann_car \<in> set (collection Car paddock) \<and> unique_ids (collection Car paddock)
   \<and> field ann_car ''id'' = Some (JStr ''c1'') \<and> field ann_car ''userId'' = Some (JStr ''u1'')
   \<and> ''u2'' \<noteq> ''u1''
   \<and> get_entity Car ''u2'' ''c1'' paddock = Inl NotFound
   \<and> put_entity (\<lambda>url rid. None) Car ''u2'' ''c1'' [(''name'', JStr ''mine'')] paddock = (Inl NotFound, paddock)
   \<and> delete_entity Car ''u2'' ''c1'' paddock = (Inl NotFound, paddock)"
proof -
  have h1: "ann_car \<in> set (collection Car paddock)" by (simp add: paddock_def)
  have h2: "unique_ids (collection Car paddock)" by (simp add: unique_ids_def paddock_defs field_def)
  have h3: "field ann_car ''id'' = Some (JStr ''c1'')" by (simp add: ann_car_def field_def)
  have h4: "field ann_car ''userId'' = Some (JStr ''u1'')" by (simp add: ann_car_def field_def)
  have h5: "''u2'' \<noteq> ''u1''" by simp
  show ?thesis
    using h1 h2 h3 h4 h5
      cross_user_not_found[OF h1 h2 h3 h4 h5, of "\<lambda>url rid. None" "[(''name'', JStr ''mine'')]"]
    by simp
qed

subsection \<open>The corner-note upsert\<close>

lemma in_corner_fields: "js_includes corner_fields fld \<longleftrightarrow> fld \<in> set corner_fields"
  by (auto simp: js_includes_def corner_fields_def strict_eq_def)


lemma set_corner_field_other:
  "fld \<notin> set corner_fields \<Longrightarrow> set_corner_field fld val = (\<lambda>cn. cn)"
  by (rule ext) (simp add: set_corner_field_def in_corner_fields)


lemma post_corner_note_existing:
  assumes "truthy (field body ''sessionId'')" and "truthy (field body ''cornerName'')"
      and "List.find (same_corner uid (field body ''sessionId'') (field body ''cornerName''))
             (cornerNotes st) = Some cn"
  shows "post_corner_note newId uid body st =
     (Inr (Ok (JObj (set_corner_field (field body ''field'') (field body ''value'') cn))),
      st\<lparr>cornerNotes :=
           assign_first (same_corner uid (field body ''sessionId'') (field body ''cornerName''))
             (set_corner_field (field body ''field'') (field body ''value'')) (cornerNotes st)\<rparr>)"
proof -
  from assms(1) obtain sid where sid: "field body ''sessionId'' = Some sid"
    by (cases "field body ''sessionId''") auto
  from assms(2) obtain cname where cname: "field body ''cornerName'' = Some cname"
    by (cases "field body ''cornerName''") auto
  show ?thesis
    using assms unfolding sid cname by (simp add: post_corner_note_def sid cname)
qed



text \<open>
  C9. The session and the corner name of the call are those of a corner note \<open>cn\<close> of the
  caller, and the \<^verbatim>\<open>field\<close> of the call is absent or is none of \<^verbatim>\<open>entry\<close>, \<^verbatim>\<open>apex\<close>,
  \<^verbatim>\<open>exit\<close>. Then the call is answered with 200 and \<open>cn\<close> as it is stored, and the store
  after the call is the store before it.
\<close>

theorem upsert_without_field_changes_nothing:
  assumes "truthy (field body ''sessionId'')" and "truthy (field body ''cornerName'')"
      and "List.find (same_corner uid (field body ''sessionId'') (field body ''cornerName''))
             (cornerNotes st) = Some cn"
      and "field body ''field'' \<notin> set corner_fields"
  shows "post_corner_note newId uid body st = (Inr (Ok (JObj cn)), st)"
  unfolding post_corner_note_existing[OF assms(1,2,3)] set_corner_field_other[OF assms(4)]
  by (simp add: assign_first_id)

theorem upsert_without_field_changes_nothing_witness:
  "truthy (field [(''sessionId'', JStr ''q1''), (''cornerName'', JStr ''T1''), (''field'', JStr ''braking''),
                  (''value'', JStr ''x'')] ''sessionId'')
   \<and> field [(''sessionId'', JStr ''q1''), (''cornerName'', JStr ''T1''), (''field'', JStr ''braking''),
             (''value'', JStr ''x'')] ''field'' \<notin> set corner_fields
   \<and> post_corner_note ''n2'' ''u1''
        [(''sessionId'', JStr ''q1''), (''cornerName'', JStr ''T1''), (''field'', JStr ''braking''),
         (''value'', JStr ''x'')] paddock = (Inr (Ok (JObj ann_corner)), paddock)"
proof -
  let ?body = "[(''sessionId'', JStr ''q1''), (''cornerName'', JStr ''T1''), (''field'', JStr ''braking''),
                (''value'', JStr ''x'')]"
  have h1: "truthy (field ?body ''sessionId'')" by (simp add: field_def)
  have h2: "truthy (field ?body ''cornerName'')" by (simp add: field_def)
  have h3: "List.find (same_corner ''u1'' (field ?body ''sessionId'') (field ?body ''cornerName''))
             (cornerNotes paddock) = Some ann_corner"
    by (simp add: paddock_defs same_corner_def field_def strict_eq_def)
  have h4: "field ?body ''field'' \<notin> set corner_fields" by (simp add: field_def corner_fields_def)
  show ?thesis
    using h1 h4 upsert_without_field_changes_nothing[OF h1 h2 h3 h4, of "''n2''"] by simp
qed





subsection \<open>Updating a record\<close>

lemma field_fold_set:
  "field (fold (\<lambda>k r. set_field k (g k) r) ks r0) k = (if k \<in> set ks then g k else field r0 k)"
  by (induction ks arbitrary: r0) (auto simp: field_set_field)

lemma field_coalesce:
  "field (coalesce_fields ks body c) k =
     (if k \<in> set ks then nullish (field body k) (field c k) else field c k)"
  unfolding coalesce_fields_def by (rule field_fold_set)

lemma field_update: "field (AList.update k v r) k' = (if k' = k then Some v else field r k')"
  by (simp add: field_def update_conv')

lemma field_Cons: "field ((a, v) # r) k = (if k = a then Some v else field r k)"
  by (simp add: field_def)

lemma field_spread:
  "distinct (map fst body) \<Longrightarrow>
     field (spread c body) k = (case field body k of Some v \<Rightarrow> Some v | None \<Rightarrow> field c k)"
proof (induction body arbitrary: c)
  case Nil
  then show ?case by (simp add: field_def)
next
  case (Cons p body)
  obtain a v where p: "p = (a, v)" by (cases p)
  from Cons.prems p have d: "distinct (map fst body)" and a: "a \<notin> fst ` set body" by auto
  from a have none: "field body a = None" by (simp add: field_def map_of_eq_None_iff)
  have "field (spread c (p # body)) k = field (spread (AList.update a v c) body) k"
    by (simp add: p)
  also have "\<dots> = (case field body k of Some w \<Rightarrow> Some w | None \<Rightarrow> field (AList.update a v c) k)"
    by (rule Cons.IH[OF d])
  also have "\<dots> = (case field (p # body) k of Some w \<Rightarrow> Some w | None \<Rightarrow> field c k)"
    using none by (cases "k = a") (simp_all add: p field_Cons field_update split: option.splits)
  finally show ?case .
qed

lemma field_merge_body:
  "distinct (map fst body) \<Longrightarrow>
     field (merge_body body c) k =
       (if k = ''id'' \<or> k = ''userId'' then field c k
        else case field body k of Some v \<Rightarrow> Some v | None \<Rightarrow> field c k)"
  by (simp add: merge_body_def field_set_field field_spread)

lemma put_record_found:
  assumes "List.find (is_record rid uid) xs = Some c"
  shows "\<exists>pre post. xs = pre @ c # post \<and> (\<forall>y \<in> set pre. \<not> is_record rid uid y)
           \<and> put_record f xs uid rid = (Inr (Ok (JObj (f c))), pre @ f c # post)"
proof -
  from find_split[OF assms] obtain pre post where
    sp: "xs = pre @ c # post" "is_record rid uid c" "\<forall>y \<in> set pre. \<not> is_record rid uid y" by blast
  then have "assign_first (is_record rid uid) f xs = pre @ f c # post"
    by (simp add: assign_first_split)
  then have "put_record f xs uid rid = (Inr (Ok (JObj (f c))), pre @ f c # post)"
    using assms by (simp add: put_record_def)
  with sp show ?thesis by blast
qed

lemma put_via_record:
  assumes "List.find (is_record rid uid) xs = Some c"
      and "(case put_record f xs uid rid of (r, ys) \<Rightarrow> (r, upd ys)) = (Inr (Ok (JObj c')), st')"
  shows "c' = f c \<and> (\<exists>pre post. xs = pre @ c # post \<and> (\<forall>y \<in> set pre. \<not> is_record rid uid y)
                         \<and> st' = upd (pre @ c' # post))"
proof -
  from put_record_found[OF assms(1), of f] obtain pre post where
    sp: "xs = pre @ c # post" "\<forall>y \<in> set pre. \<not> is_record rid uid y"
        "put_record f xs uid rid = (Inr (Ok (JObj (f c))), pre @ f c # post)" by blast
  from assms(2) sp(3) have "c' = f c" "st' = upd (pre @ f c # post)" by auto
  with sp(1,2) show ?thesis by blast
qed

lemma collection_other:
  "kind \<noteq> Car \<Longrightarrow> collection kind (st\<lparr>cars := xs\<rparr>) = collection kind st"
  "kind \<noteq> Setup \<Longrightarrow> collection kind (st\<lparr>setups := xs\<rparr>) = collection kind st"
  "kind \<noteq> Track \<Longrightarrow> collection kind (st\<lparr>tracks := xs\<rparr>) = collection kind st"
  "kind \<noteq> TrackNote \<Longrightarrow> collection kind (st\<lparr>trackNotes := xs\<rparr>) = collection kind st"
  "kind \<noteq> CornerNote \<Longrightarrow> collection kind (st\<lparr>cornerNotes := xs\<rparr>) = collection kind st"
  "kind \<noteq> Session \<Longrightarrow> collection kind (st\<lparr>sessions := xs\<rparr>) = collection kind st"
  "kind \<noteq> MaintenanceTask \<Longrightarrow> collection kind (st\<lparr>maintenance := xs\<rparr>) = collection kind st"
  by (cases kind; simp)+

lemma put_track_found:
  assumes "List.find (is_record rid uid) (tracks st) = Some c"
      and "put_track download uid rid body st = (Inr (Ok (JObj c')), st')"
  shows "\<exists>img. c' = track_update body img c \<and>
           (\<exists>pre post. tracks st = pre @ c # post \<and> (\<forall>y \<in> set pre. \<not> is_record rid uid y)
                         \<and> st' = st\<lparr>tracks := pre @ c' # post\<rparr>)"
proof -
  from find_split[OF assms(1)] obtain pre post where
    sp: "tracks st = pre @ c # post" "is_record rid uid c" "\<forall>y \<in> set pre. \<not> is_record rid uid y" by blast
  from assms obtain img where
    img: "c' = track_update body img c"
         "st' = st\<lparr>tracks := assign_first (is_record rid uid) (track_update body img) (tracks st)\<rparr>"
    by (auto simp: put_track_def split: option.splits)
  from sp have "assign_first (is_record rid uid) (track_update body img) (tracks st) = pre @ c' # post"
    by (simp add: assign_first_split img(1))
  with img sp show ?thesis by auto
qed

lemma field_track_update:
  "k \<notin> {''imageUrl'', ''corners'', ''circuitNotes''} \<Longrightarrow>
     field (track_update body img c) k =
       (if k \<in> {''name'', ''location'', ''length''} then nullish (field body k) (field c k) else field c k)"
  by (simp add: track_update_def field_set_field field_coalesce)

text \<open>
  C3. The claim fails for the routes that assign \<^verbatim>\<open>req.body.k ?? stored.k\<close>. What holds:
  the updates of setups and maintenance tasks store every key of the input, also one whose
  value is \<^verbatim>\<open>null\<close>, and keep every other property; the updates of cars, track notes
  and sessions (and of the name, location and length of a track) change only the
  properties that the route lists, and only to a value of the input that is not
  \<^verbatim>\<open>null\<close>: a listed key that is absent or \<^verbatim>\<open>null\<close> keeps the stored value, and a key
  that is not listed is ignored. In all of them \<^verbatim>\<open>id\<close> and \<^verbatim>\<open>userId\<close> are the stored
  ones, the updated record takes the place of the stored one, and nothing else changes.
\<close>

theorem update_overwrites_or_coalesces:
  assumes "List.find (is_record rid uid) (collection kind st) = Some c"
      and "distinct (map fst body)"
      and "put_entity download kind uid rid body st = (Inr (Ok (JObj c')), st')"
  shows "update_spec kind body c c'
       \<and> (\<exists>pre post. collection kind st = pre @ c # post \<and> (\<forall>y \<in> set pre. \<not> is_record rid uid y)
                       \<and> collection kind st' = pre @ c' # post)
       \<and> (\<forall>kind'. kind' \<noteq> kind \<longrightarrow> collection kind' st' = collection kind' st)
       \<and> users st' = users st"
proof (cases kind)
  case Car
  with assms have
    "c' = coalesce_fields [''name'', ''manufacturer'', ''series''] body c \<and>
     (\<exists>pre post. cars st = pre @ c # post \<and> (\<forall>y \<in> set pre. \<not> is_record rid uid y)
        \<and> st' = st\<lparr>cars := pre @ c' # post\<rparr>)"
    by (intro put_via_record) (simp_all add: put_car_def)
  then obtain pre post where r: "c' = coalesce_fields [''name'', ''manufacturer'', ''series''] body c"
     "cars st = pre @ c # post" "\<forall>y \<in> set pre. \<not> is_record rid uid y" "st' = st\<lparr>cars := pre @ c' # post\<rparr>"
    by blast
  have "update_spec kind body c c'"
    by (simp add: update_spec_def Car r(1) field_coalesce)
  moreover have "\<forall>kind'. kind' \<noteq> kind \<longrightarrow> collection kind' st' = collection kind' st"
    using Car r(4) by (simp add: collection_other)
  ultimately show ?thesis using Car r by auto
next
  case Setup
  with assms have
    "c' = merge_body body c \<and>
     (\<exists>pre post. setups st = pre @ c # post \<and> (\<forall>y \<in> set pre. \<not> is_record rid uid y)
        \<and> st' = st\<lparr>setups := pre @ c' # post\<rparr>)"
    by (intro put_via_record) (simp_all add: put_setup_def)
  then obtain pre post where r: "c' = merge_body body c"
     "setups st = pre @ c # post" "\<forall>y \<in> set pre. \<not> is_record rid uid y" "st' = st\<lparr>setups := pre @ c' # post\<rparr>"
    by blast
  have "update_spec kind body c c'"
    by (simp add: update_spec_def Setup r(1) field_merge_body[OF assms(2)])
  moreover have "\<forall>kind'. kind' \<noteq> kind \<longrightarrow> collection kind' st' = collection kind' st"
    using Setup r(4) by (simp add: collection_other)
  ultimately show ?thesis using Setup r by auto
next
  case Track
  with assms put_track_found[of rid uid st c download body c' st'] obtain img pre post where
    r: "c' = track_update body img c" "tracks st = pre @ c # post"
       "\<forall>y \<in> set pre. \<not> is_record rid uid y" "st' = st\<lparr>tracks := pre @ c' # post\<rparr>"
    by auto
  have "update_spec kind body c c'"
    by (simp add: update_spec_def Track r(1) field_track_update)
  moreover have "\<forall>kind'. kind' \<noteq> kind \<longrightarrow> collection kind' st' = collection kind' st"
    using Track r(4) by (simp add: collection_other)
  ultimately show ?thesis using Track r by auto
next
  case TrackNote
  with assms have
    "c' = coalesce_fields [''carId'', ''trackId'', ''notes''] body c \<and>
     (\<exists>pre post. trackNotes st = pre @ c # post \<and> (\<forall>y \<in> set pre. \<not> is_record rid uid y)
        \<and> st' = st\<lparr>trackNotes := pre @ c' # post\<rparr>)"
    by (intro put_via_record) (simp_all add: put_track_note_def)
  then obtain pre post where r: "c' = coalesce_fields [''carId'', ''trackId'', ''notes''] body c"
     "trackNotes st = pre @ c # post" "\<forall>y \<in> set pre. \<not> is_record rid uid y"
     "st' = st\<lparr>trackNotes := pre @ c' # post\<rparr>"
    by blast
  have "update_spec kind body c c'"
    by (simp add: update_spec_def TrackNote r(1) field_coalesce)
  moreover have "\<forall>kind'. kind' \<noteq> kind \<longrightarrow> collection kind' st' = collection kind' st"
    using TrackNote r(4) by (simp add: collection_other)
  ultimately show ?thesis using TrackNote r by auto
next
  case CornerNote
  with assms(3) show ?thesis by simp
next
  case Session
  with assms have
    "c' = coalesce_fields session_fields body c \<and>
     (\<exists>pre post. sessions st = pre @ c # post \<and> (\<forall>y \<in> set pre. \<not> is_record rid uid y)
        \<and> st' = st\<lparr>sessions := pre @ c' # post\<rparr>)"
    by (intro put_via_record) (simp_all add: put_session_def)
  then obtain pre post where r: "c' = coalesce_fields session_fields body c"
     "sessions st = pre @ c # post" "\<forall>y \<in> set pre. \<not> is_record rid uid y"
     "st' = st\<lparr>sessions := pre @ c' # post\<rparr>"
    by blast
  have "update_spec kind body c c'"
    by (simp add: update_spec_def Session r(1) field_coalesce session_fields_def)
  moreover have "\<forall>kind'. kind' \<noteq> kind \<longrightarrow> collection kind' st' = collection kind' st"
    using Session r(4) by (simp add: collection_other)
  ultimately show ?thesis using Session r by auto
next
  case MaintenanceTask
  with assms have
    "c' = merge_body body c \<and>
     (\<exists>pre post. maintenance st = pre @ c # post \<and> (\<forall>y \<in> set pre. \<not> is_record rid uid y)
        \<and> st' = st\<lparr>maintenance := pre @ c' # post\<rparr>)"
    by (intro put_via_record) (simp_all add: put_maintenance_def)
  then obtain pre post where r: "c' = merge_body body c"
     "maintenance st = pre @ c # post" "\<forall>y \<in> set pre. \<not> is_record rid uid y"
     "st' = st\<lparr>maintenance := pre @ c' # post\<rparr>"
    by blast
  have "update_spec kind body c c'"
    by (simp add: update_spec_def MaintenanceTask r(1) field_merge_body[OF assms(2)])
  moreover have "\<forall>kind'. kind' \<noteq> kind \<longrightarrow> collection kind' st' = collection kind' st"
    using MaintenanceTask r(4) by (simp add: collection_other)
  ultimately show ?thesis using MaintenanceTask r by auto
qed

theorem update_overwrites_or_coalesces_witness:
  "List.find (is_record ''s1'' ''u1'') (collection Setup paddock) = Some ann_setup
   \<and> distinct (map fst [(''name'', JNull), (''userId'', JStr ''u2'')])
   \<and> put_entity (\<lambda>url rid. None) Setup ''u1'' ''s1'' [(''name'', JNull), (''userId'', JStr ''u2'')] paddock =
       (Inr (Ok (JObj [(''id'', JStr ''s1''), (''userId'', JStr ''u1''), (''carId'', JStr ''c1''),
                       (''trackId'', JStr ''t1''), (''name'', JNull)])),
        paddock\<lparr>setups := [[(''id'', JStr ''s1''), (''userId'', JStr ''u1''), (''carId'', JStr ''c1''),
                                (''trackId'', JStr ''t1''), (''name'', JNull)], bob_setup]\<rparr>)
   \<and> update_spec Setup [(''name'', JNull), (''userId'', JStr ''u2'')] ann_setup
        [(''id'', JStr ''s1''), (''userId'', JStr ''u1''), (''carId'', JStr ''c1''),
         (''trackId'', JStr ''t1''), (''name'', JNull)]"
proof -
  have h1: "List.find (is_record ''s1'' ''u1'') (collection Setup paddock) = Some ann_setup"
    by (simp add: paddock_defs js_defs)
  have h2: "distinct (map fst [(''name'', JNull), (''userId'', JStr ''u2'')])" by simp
  have h3: "put_entity (\<lambda>url rid. None) Setup ''u1'' ''s1'' [(''name'', JNull), (''userId'', JStr ''u2'')] paddock =
       (Inr (Ok (JObj [(''id'', JStr ''s1''), (''userId'', JStr ''u1''), (''carId'', JStr ''c1''),
                       (''trackId'', JStr ''t1''), (''name'', JNull)])),
        paddock\<lparr>setups := [[(''id'', JStr ''s1''), (''userId'', JStr ''u1''), (''carId'', JStr ''c1''),
                                (''trackId'', JStr ''t1''), (''name'', JNull)], bob_setup]\<rparr>)"
    by (simp add: put_setup_def put_record_def merge_body_def paddock_defs js_defs)
  from update_overwrites_or_coalesces[OF h1 h2 h3] h1 h2 h3 show ?thesis by blast
qed

text \<open>
  The counterexample to C3: Ann sends \<^verbatim>\<open>{ "name": null }\<close> to the update of her car. The
  key is present in the input, and the stored name is not cleared: the answer is the car as
  it was and the store is unchanged.
\<close>

theorem update_car_null_counterexample:
  "field [(''name'', JNull)] ''name'' = Some JNull
   \<and> put_entity (\<lambda>url rid. None) Car ''u1'' ''c1'' [(''name'', JNull)] paddock
       = (Inr (Ok (JObj ann_car)), paddock)
   \<and> field ann_car ''name'' = Some (JStr ''MX-5'')"
  by (simp add: put_car_def put_record_def coalesce_fields_def paddock_defs js_defs)

subsection \<open>Bulk delete\<close>

lemma js_includes_iff: "js_includes xs v \<longleftrightarrow> (\<exists>x \<in> set xs. strict_eq x v)"
  by (simp add: js_includes_def list_ex_iff)

lemma strict_eq_trans: "strict_eq a b \<Longrightarrow> strict_eq b c \<Longrightarrow> strict_eq a c"
  unfolding strict_eq_def by auto

lemma strict_eq_sym: "strict_eq a b \<Longrightarrow> strict_eq b a"
  unfolding strict_eq_def by auto

lemma has_id_of_iff:
  "has_id_of sel s \<longleftrightarrow> s \<in> set sel \<or> (\<exists>d \<in> set sel. strict_eq (field d ''id'') (field s ''id''))"
  by (auto simp: has_id_of_def js_includes_iff)

lemma two_pass_has_id:
  assumes "s \<in> set xs"
  shows "has_id_of (filter P xs) s \<or>
         has_id_of (filter Q (filter (\<lambda>s. \<not> has_id_of (filter P xs) s) xs)) s
         \<longleftrightarrow> has_id_of (filter (\<lambda>s. P s \<or> Q s) xs) s"
    (is "?A \<or> ?B \<longleftrightarrow> ?C")
proof
  assume "?A \<or> ?B"
  then show ?C by (auto simp: has_id_of_iff)
next
  assume c: ?C
  show "?A \<or> ?B"
  proof (cases ?A)
    case True
    then show ?thesis by simp
  next
    case notA: False
    from c consider "s \<in> set (filter (\<lambda>s. P s \<or> Q s) xs)"
      | d where "d \<in> set xs" "P d \<or> Q d" "strict_eq (field d ''id'') (field s ''id'')"
      by (auto simp: has_id_of_iff)
    then have ?B
    proof cases
      case 1
      with notA have "Q s" by (auto simp: has_id_of_iff)
      with assms notA have "s \<in> set (filter Q (filter (\<lambda>s. \<not> has_id_of (filter P xs) s) xs))"
        by simp
      then show ?thesis unfolding has_id_of_iff[of "filter Q _"] by blast
    next
      case 2
      have nd: "\<not> has_id_of (filter P xs) d"
      proof
        assume "has_id_of (filter P xs) d"
        then consider "d \<in> set (filter P xs)"
          | e where "e \<in> set (filter P xs)" "strict_eq (field e ''id'') (field d ''id'')"
          by (auto simp: has_id_of_iff)
        then have "has_id_of (filter P xs) s"
        proof cases
          case 1
          with 2(3) show ?thesis unfolding has_id_of_iff by blast
        next
          case 2
          note e = this
          from strict_eq_trans[OF e(2) \<open>strict_eq (field d ''id'') (field s ''id'')\<close>] e(1)
          show ?thesis unfolding has_id_of_iff by blast
        qed
        with notA show False by simp
      qed
      with 2 have "Q d" by (auto simp: has_id_of_iff)
      with 2 nd have "d \<in> set (filter Q (filter (\<lambda>s. \<not> has_id_of (filter P xs) s) xs))" by simp
      with 2(3) show ?thesis unfolding has_id_of_iff[of "filter Q _"] by blast
    qed
    then show ?thesis by simp
  qed
qed

lemma two_pass_ids:
  "js_includes (map (\<lambda>s. field s ''id'') (filter P xs)) v \<or>
   js_includes (map (\<lambda>s. field s ''id'') (filter Q (filter (\<lambda>s. \<not> has_id_of (filter P xs) s) xs))) v
   \<longleftrightarrow> js_includes (map (\<lambda>s. field s ''id'') (filter (\<lambda>s. P s \<or> Q s) xs)) v"
    (is "?A \<or> ?B \<longleftrightarrow> ?C")
proof
  assume "?A \<or> ?B"
  then show ?C by (auto simp: js_includes_iff)
next
  assume ?C
  then obtain d where d: "d \<in> set xs" "P d \<or> Q d" "strict_eq (field d ''id'') v"
    by (auto simp: js_includes_iff)
  show "?A \<or> ?B"
  proof (cases "has_id_of (filter P xs) d")
    case True
    then consider "d \<in> set (filter P xs)"
      | e where "e \<in> set (filter P xs)" "strict_eq (field e ''id'') (field d ''id'')"
      by (auto simp: has_id_of_iff)
    then have ?A
    proof cases
      case 1
      with d(3) show ?thesis unfolding js_includes_iff by auto
    next
      case 2
      from strict_eq_trans[OF 2(2) d(3)] 2(1) show ?thesis unfolding js_includes_iff by auto
    qed
    then show ?thesis by simp
  next
    case False
    with d have "Q d" by (auto simp: has_id_of_iff)
    with d False have "d \<in> set (filter Q (filter (\<lambda>s. \<not> has_id_of (filter P xs) s) xs))" by simp
    with d(3) have ?B unfolding js_includes_iff by auto
    then show ?thesis by simp
  qed
qed

lemma js_includes_Nil [simp]: "js_includes [] v = False"
  by (simp add: js_includes_def)

lemma has_id_of_Nil [simp]: "has_id_of [] s = False"
  by (simp add: has_id_of_def)

lemma selected_ids_Nil [simp]: "selected_ids uid [] xs = []"
  by (simp add: selected_ids_def)

lemma child_of_Nil [simp]: "child_of fk uid [] s = False"
  by (simp add: child_of_def)

lemma bulk_car_pass_fst:
  "fst (bulk_car_pass uid carIds (st, sm)) =
     st\<lparr>setups := filter (\<lambda>s. \<not> child_of ''carId'' uid (selected_ids uid carIds (cars st)) s) (setups st),
        sessions := filter (\<lambda>s. \<not> has_id_of (filter (child_of ''carId'' uid (selected_ids uid carIds (cars st)))
                                              (sessions st)) s) (sessions st),
        cornerNotes := filter (\<lambda>cn. \<not> (owner_is uid cn \<and>
                          js_includes (map (\<lambda>s. field s ''id'')
                             (filter (child_of ''carId'' uid (selected_ids uid carIds (cars st))) (sessions st)))
                            (field cn ''sessionId''))) (cornerNotes st),
        trackNotes := filter (\<lambda>s. \<not> child_of ''carId'' uid (selected_ids uid carIds (cars st)) s) (trackNotes st),
        maintenance := filter (\<lambda>s. \<not> child_of ''carId'' uid (selected_ids uid carIds (cars st)) s) (maintenance st),
        cars := filter (\<lambda>c. \<not> (owner_is uid c \<and> js_includes (selected_ids uid carIds (cars st)) (field c ''id'')))
                  (cars st)\<rparr>"
  by (simp add: bulk_car_pass_def Let_def)

lemma bulk_track_pass_fst:
  "fst (bulk_track_pass uid trackIds (st, sm)) =
     st\<lparr>setups := filter (\<lambda>s. \<not> child_of ''trackId'' uid (selected_ids uid trackIds (tracks st)) s) (setups st),
        sessions := filter (\<lambda>s. \<not> has_id_of (filter (child_of ''trackId'' uid (selected_ids uid trackIds (tracks st)))
                                              (sessions st)) s) (sessions st),
        cornerNotes := filter (\<lambda>cn. \<not> (owner_is uid cn \<and>
                          js_includes (map (\<lambda>s. field s ''id'')
                             (filter (child_of ''trackId'' uid (selected_ids uid trackIds (tracks st))) (sessions st)))
                            (field cn ''sessionId''))) (cornerNotes st),
        trackNotes := filter (\<lambda>s. \<not> child_of ''trackId'' uid (selected_ids uid trackIds (tracks st)) s) (trackNotes st),
        tracks := filter (\<lambda>c. \<not> (owner_is uid c \<and> js_includes (selected_ids uid trackIds (tracks st)) (field c ''id'')))
                  (tracks st)\<rparr>"
  by (simp add: bulk_track_pass_def Let_def)

lemma bulk_car_pass_none: "fst (bulk_car_pass uid [] (st, sm)) = st"
  unfolding bulk_car_pass_fst by simp

lemma bulk_track_pass_none: "fst (bulk_track_pass uid [] p) = fst p"
  by (cases p) (simp add: bulk_track_pass_fst)

lemma post_bulk_delete_store:
  assumes "post_bulk_delete uid carIds trackIds st = (Inr sm, st')"
  shows "st' = fst (bulk_track_pass uid trackIds
                     (fst (bulk_car_pass uid carIds (st, no_deletions)),
                      snd (bulk_car_pass uid carIds (st, no_deletions))))"
proof -
  from assms have ne: "\<not> (carIds = [] \<and> trackIds = [])"
    by (auto simp: post_bulk_delete_def)
  show ?thesis
  proof (cases "carIds = []")
    case c: True
    with ne have t: "trackIds \<noteq> []" by simp
    from assms c t have "st' = fst (bulk_track_pass uid trackIds (st, no_deletions))"
      by (auto simp: post_bulk_delete_def split: prod.splits)
    then show ?thesis using c by (simp add: bulk_car_pass_none bulk_track_pass_fst)
  next
    case c: False
    show ?thesis
    proof (cases "trackIds = []")
      case True
      with assms c have "st' = fst (bulk_car_pass uid carIds (st, no_deletions))"
        by (auto simp: post_bulk_delete_def split: prod.splits)
      then show ?thesis using True by (simp add: bulk_track_pass_none)
    next
      case False
      with assms c show ?thesis
        by (auto simp: post_bulk_delete_def split: prod.splits)
    qed
  qed
qed

lemma selected_own:
  "owner_is uid c \<Longrightarrow>
     js_includes (selected_ids uid ids xs) (field c ''id'') \<longleftrightarrow>
       (\<exists>d \<in> set xs. owner_is uid d \<and> js_includes (map Some ids) (field d ''id'')
                       \<and> strict_eq (field d ''id'') (field c ''id''))"
  by (auto simp: selected_ids_def js_includes_iff)

lemma selected_self:
  assumes "c \<in> set xs" and "owner_is uid c"
  shows "js_includes (selected_ids uid ids xs) (field c ''id'') \<longleftrightarrow> js_includes (map Some ids) (field c ''id'')"
proof
  assume "js_includes (selected_ids uid ids xs) (field c ''id'')"
  then obtain d where d: "js_includes (map Some ids) (field d ''id'')" "strict_eq (field d ''id'') (field c ''id'')"
    by (auto simp: selected_own[OF assms(2)])
  from d(1) obtain i where "i \<in> set (map Some ids)" "strict_eq i (field d ''id'')"
    by (auto simp: js_includes_iff)
  with d(2) show "js_includes (map Some ids) (field c ''id'')"
    unfolding js_includes_iff using strict_eq_trans by blast
next
  assume a: "js_includes (map Some ids) (field c ''id'')"
  then have "strict_eq (field c ''id'') (field c ''id'')"
    by (auto simp: js_includes_iff strict_eq_def)
  with a assms show "js_includes (selected_ids uid ids xs) (field c ''id'')"
    unfolding selected_own[OF assms(2)] by blast
qed

lemma filter_selected:
  "filter (\<lambda>c. \<not> (owner_is uid c \<and> js_includes (selected_ids uid ids xs) (field c ''id''))) xs =
   filter (\<lambda>c. \<not> (owner_is uid c \<and> js_includes (map Some ids) (field c ''id''))) xs"
  by (rule filter_cong) (auto simp: selected_self)

lemma two_pass_sessions:
  "filter (\<lambda>s. \<not> has_id_of (filter Q (filter (\<lambda>s. \<not> has_id_of (filter P xs) s) xs)) s)
     (filter (\<lambda>s. \<not> has_id_of (filter P xs) s) xs)
   = filter (\<lambda>s. \<not> has_id_of (filter (\<lambda>s. P s \<or> Q s) xs) s) xs"
proof -
  define xs1 where "xs1 = filter (\<lambda>s. \<not> has_id_of (filter P xs) s) xs"
  have "filter (\<lambda>s. \<not> has_id_of (filter Q xs1) s) (filter (\<lambda>s. \<not> has_id_of (filter P xs) s) xs)
        = filter (\<lambda>s. \<not> has_id_of (filter P xs) s \<and> \<not> has_id_of (filter Q xs1) s) xs"
    by (rule filter_filter)
  also have "\<dots> = filter (\<lambda>s. \<not> has_id_of (filter (\<lambda>s. P s \<or> Q s) xs) s) xs"
  proof (rule filter_cong[OF refl])
    fix s assume "s \<in> set xs"
    from two_pass_has_id[OF this, of P Q]
    show "(\<not> has_id_of (filter P xs) s \<and> \<not> has_id_of (filter Q xs1) s)
            = (\<not> has_id_of (filter (\<lambda>s. P s \<or> Q s) xs) s)"
      unfolding xs1_def by blast
  qed
  finally show ?thesis unfolding xs1_def .
qed

lemma two_pass_corner_notes:
  "filter (\<lambda>cn. \<not> (own cn \<and> js_includes (map (\<lambda>s. field s ''id'')
              (filter Q (filter (\<lambda>s. \<not> has_id_of (filter P xs) s) xs))) (g cn)))
     (filter (\<lambda>cn. \<not> (own cn \<and> js_includes (map (\<lambda>s. field s ''id'') (filter P xs)) (g cn))) cs)
   = filter (\<lambda>cn. \<not> (own cn \<and> js_includes (map (\<lambda>s. field s ''id'')
                (filter (\<lambda>s. P s \<or> Q s) xs)) (g cn))) cs"
proof -
  define i1 where "i1 = map (\<lambda>s. field s ''id'') (filter P xs)"
  define i2 where "i2 = map (\<lambda>s. field s ''id'') (filter Q (filter (\<lambda>s. \<not> has_id_of (filter P xs) s) xs))"
  define i where "i = map (\<lambda>s. field s ''id'') (filter (\<lambda>s. P s \<or> Q s) xs)"
  have k: "\<And>v. js_includes i1 v \<or> js_includes i2 v \<longleftrightarrow> js_includes i v"
    unfolding i1_def i2_def i_def by (rule two_pass_ids)
  have "filter (\<lambda>cn. \<not> (own cn \<and> js_includes i2 (g cn))) (filter (\<lambda>cn. \<not> (own cn \<and> js_includes i1 (g cn))) cs)
        = filter (\<lambda>cn. \<not> (own cn \<and> js_includes i1 (g cn)) \<and> \<not> (own cn \<and> js_includes i2 (g cn))) cs"
    by (rule filter_filter)
  also have "\<dots> = filter (\<lambda>cn. \<not> (own cn \<and> js_includes i (g cn))) cs"
    by (rule filter_cong[OF refl]) (use k in blast)
  finally show ?thesis unfolding i1_def i2_def i_def .
qed

text \<open>
  C2. The claim fails: the track pass of the bulk delete removes the setups of a selected
  track, where the single delete of a track keeps them with \<^verbatim>\<open>trackId\<close> \<^verbatim>\<open>null\<close>, and both
  passes remove sessions and their corner notes, which neither single delete touches. What
  the bulk delete does: it removes the user's cars and tracks whose id is selected; it
  removes every setup and every track note of the user that names a selected car of the
  user as \<^verbatim>\<open>carId\<close> or a selected track of the user as \<^verbatim>\<open>trackId\<close>, and every
  maintenance task of the user that names a selected car; it removes the sessions that do
  so (by their ids) and the corner notes of the user that carry the id of such a session.
  No record that stays is changed.
\<close>

theorem bulk_delete_effect:
  assumes "post_bulk_delete uid carIds trackIds st = (Inr sm, st')"
  shows "cars st' = filter (\<lambda>c. \<not> (owner_is uid c \<and> js_includes (map Some carIds) (field c ''id''))) (cars st)
       \<and> tracks st' = filter (\<lambda>t. \<not> (owner_is uid t \<and> js_includes (map Some trackIds) (field t ''id''))) (tracks st)
       \<and> setups st' = filter (\<lambda>s. \<not> refs_selected uid carIds trackIds st s) (setups st)
       \<and> trackNotes st' = filter (\<lambda>tn. \<not> refs_selected uid carIds trackIds st tn) (trackNotes st)
       \<and> maintenance st' =
           filter (\<lambda>m. \<not> child_of ''carId'' uid (selected_ids uid carIds (cars st)) m) (maintenance st)
       \<and> sessions st' =
           filter (\<lambda>s. \<not> has_id_of (filter (refs_selected uid carIds trackIds st) (sessions st)) s) (sessions st)
       \<and> cornerNotes st' =
           filter (\<lambda>cn. \<not> (owner_is uid cn \<and>
                     js_includes (map (\<lambda>s. field s ''id'') (filter (refs_selected uid carIds trackIds st) (sessions st)))
                       (field cn ''sessionId''))) (cornerNotes st)
       \<and> users st' = users st"
proof -
  let ?C = "selected_ids uid carIds (cars st)"
  let ?T = "selected_ids uid trackIds (tracks st)"
  let ?P = "child_of ''carId'' uid ?C"
  let ?Q = "child_of ''trackId'' uid ?T"
  note st' = post_bulk_delete_store[OF assms]
  have rs: "refs_selected uid carIds trackIds st = (\<lambda>s. ?P s \<or> ?Q s)"
    by (rule ext) (simp add: refs_selected_def)
  have cars: "cars st' = filter (\<lambda>c. \<not> (owner_is uid c \<and> js_includes (map Some carIds) (field c ''id''))) (cars st)"
    unfolding st' bulk_track_pass_fst bulk_car_pass_fst
    using filter_selected[of uid carIds "cars st"] by simp
  have tracks: "tracks st' = filter (\<lambda>t. \<not> (owner_is uid t \<and> js_includes (map Some trackIds) (field t ''id''))) (tracks st)"
    unfolding st' bulk_track_pass_fst bulk_car_pass_fst
    using filter_selected[of uid trackIds "tracks st"] by simp
  have setups: "setups st' = filter (\<lambda>s. \<not> refs_selected uid carIds trackIds st s) (setups st)"
    unfolding st' bulk_track_pass_fst bulk_car_pass_fst rs by simp
  have trackNotes: "trackNotes st' = filter (\<lambda>s. \<not> refs_selected uid carIds trackIds st s) (trackNotes st)"
    unfolding st' bulk_track_pass_fst bulk_car_pass_fst rs by simp
  have maintenance: "maintenance st' = filter (\<lambda>m. \<not> ?P m) (maintenance st)"
    unfolding st' bulk_track_pass_fst bulk_car_pass_fst by simp
  have "sessions st' =
          filter (\<lambda>s. \<not> has_id_of (filter ?Q (filter (\<lambda>s. \<not> has_id_of (filter ?P (sessions st)) s) (sessions st))) s)
            (filter (\<lambda>s. \<not> has_id_of (filter ?P (sessions st)) s) (sessions st))"
    unfolding st' bulk_track_pass_fst bulk_car_pass_fst by simp
  also have "\<dots> = filter (\<lambda>s. \<not> has_id_of (filter (\<lambda>s. ?P s \<or> ?Q s) (sessions st)) s) (sessions st)"
    by (rule two_pass_sessions)
  finally have sessions: "sessions st' =
      filter (\<lambda>s. \<not> has_id_of (filter (refs_selected uid carIds trackIds st) (sessions st)) s) (sessions st)"
    unfolding rs .
  have "cornerNotes st' =
          filter (\<lambda>cn. \<not> (owner_is uid cn \<and> js_includes (map (\<lambda>s. field s ''id'')
                    (filter ?Q (filter (\<lambda>s. \<not> has_id_of (filter ?P (sessions st)) s) (sessions st))))
                    (field cn ''sessionId'')))
            (filter (\<lambda>cn. \<not> (owner_is uid cn \<and> js_includes (map (\<lambda>s. field s ''id'') (filter ?P (sessions st)))
                    (field cn ''sessionId''))) (cornerNotes st))"
    unfolding st' bulk_track_pass_fst bulk_car_pass_fst by simp
  also have "\<dots> = filter (\<lambda>cn. \<not> (owner_is uid cn \<and> js_includes (map (\<lambda>s. field s ''id'')
                    (filter (\<lambda>s. ?P s \<or> ?Q s) (sessions st))) (field cn ''sessionId''))) (cornerNotes st)"
    by (rule two_pass_corner_notes)
  finally have cornerNotes: "cornerNotes st' =
           filter (\<lambda>cn. \<not> (owner_is uid cn \<and>
                     js_includes (map (\<lambda>s. field s ''id'') (filter (refs_selected uid carIds trackIds st) (sessions st)))
                       (field cn ''sessionId''))) (cornerNotes st)"
    unfolding rs .
  have users: "users st' = users st"
    unfolding st' bulk_track_pass_fst bulk_car_pass_fst by simp
  show ?thesis
    using cars tracks setups trackNotes maintenance sessions cornerNotes users by (intro conjI)
qed

lemmas bulk_defs = post_bulk_delete_def bulk_car_pass_def bulk_track_pass_def selected_ids_def
  child_of_def has_id_of_def no_deletions_def Let_def

theorem bulk_delete_effect_witness:
  "post_bulk_delete ''u1'' [JStr ''c1''] [JStr ''t1''] paddock =
     (Inr \<lparr>carsDeleted = 1, tracksDeleted = 1, setupsDeleted = 1, sessionsDeleted = 1,
           cornerNotesDeleted = 1, trackNotesDeleted = 1, maintenanceDeleted = 1\<rparr>,
      \<lparr>users = [ann, bob], cars = [bob_car], setups = [bob_setup], tracks = [], sessions = [],
       cornerNotes = [], trackNotes = [], maintenance = []\<rparr>)
   \<and> [bob_setup] = filter (\<lambda>s. \<not> refs_selected ''u1'' [JStr ''c1''] [JStr ''t1''] paddock s) (setups paddock)"
proof -
  have h: "post_bulk_delete ''u1'' [JStr ''c1''] [JStr ''t1''] paddock =
     (Inr \<lparr>carsDeleted = 1, tracksDeleted = 1, setupsDeleted = 1, sessionsDeleted = 1,
           cornerNotesDeleted = 1, trackNotesDeleted = 1, maintenanceDeleted = 1\<rparr>,
      \<lparr>users = [ann, bob], cars = [bob_car], setups = [bob_setup], tracks = [], sessions = [],
       cornerNotes = [], trackNotes = [], maintenance = []\<rparr>)"
    by (simp add: bulk_defs paddock_defs js_defs)
  from bulk_delete_effect[OF h] h show ?thesis by simp
qed

text \<open>
  The counterexample to C2: Ann selects her track \<open>t1\<close> alone. The bulk delete removes her
  setup, her session and its corner note with the track and the track note; the single
  delete of the same track keeps the setup with \<^verbatim>\<open>trackId\<close> \<^verbatim>\<open>null\<close>, and keeps the
  session and the corner note.
\<close>

theorem bulk_delete_track_counterexample:
  "post_bulk_delete ''u1'' [] [JStr ''t1''] paddock =
     (Inr \<lparr>carsDeleted = 0, tracksDeleted = 1, setupsDeleted = 1, sessionsDeleted = 1,
           cornerNotesDeleted = 1, trackNotesDeleted = 1, maintenanceDeleted = 0\<rparr>,
      paddock\<lparr>tracks := [], setups := [bob_setup], sessions := [], cornerNotes := [], trackNotes := []\<rparr>)
   \<and> delete_track ''u1'' ''t1'' paddock =
     (Inr NoContent,
      paddock\<lparr>tracks := [], trackNotes := [],
              setups := [[(''id'', JStr ''s1''), (''userId'', JStr ''u1''), (''carId'', JStr ''c1''),
                          (''trackId'', JNull), (''name'', JStr ''dry'')], bob_setup]\<rparr>)
   \<and> setups (snd (post_bulk_delete ''u1'' [] [JStr ''t1''] paddock))
       \<noteq> setups (snd (delete_track ''u1'' ''t1'' paddock))"
proof -
  have a: "post_bulk_delete ''u1'' [] [JStr ''t1''] paddock =
     (Inr \<lparr>carsDeleted = 0, tracksDeleted = 1, setupsDeleted = 1, sessionsDeleted = 1,
           cornerNotesDeleted = 1, trackNotesDeleted = 1, maintenanceDeleted = 0\<rparr>,
      paddock\<lparr>tracks := [], setups := [bob_setup], sessions := [], cornerNotes := [], trackNotes := []\<rparr>)"
    by (simp add: bulk_defs paddock_defs js_defs)
  have b: "delete_track ''u1'' ''t1'' paddock =
     (Inr NoContent,
      paddock\<lparr>tracks := [], trackNotes := [],
              setups := [[(''id'', JStr ''s1''), (''userId'', JStr ''u1''), (''carId'', JStr ''c1''),
                          (''trackId'', JNull), (''name'', JStr ''dry'')], bob_setup]\<rparr>)"
    by (simp add: delete_track_def paddock_defs js_defs)
  show ?thesis unfolding a b by simp
qed

subsection \<open>Import: the pieces\<close>

lemma update_same: "map_of r k = Some v \<Longrightarrow> AList.update k v r = r"
  by (induction r) auto

lemma delete_absent: "map_of r k = None \<Longrightarrow> AList.delete k r = r"
  by (induction r) (auto split: if_splits)

lemma set_field_same: "set_field k (field r k) r = r"
  by (cases "field r k") (simp_all add: set_field_def field_def update_same delete_absent)

lemma field_fresh_copy:
  "field (fresh_copy i uid r) k =
     (if k = ''userId'' then Some (JStr uid) else if k = ''id'' then Some (JStr i) else field r k)"
  by (simp add: fresh_copy_def field_update)

subsubsection \<open>Loops that can throw\<close>



lemma fold_opt_all:
  assumes "\<And>x a. x \<in> set xs \<Longrightarrow> f x a = Some (g x a)"
  shows "fold_opt f xs a = Some (fold g xs a)"
  using assms by (induction xs arbitrary: a) simp_all

subsubsection \<open>Reading and writing an id map\<close>

lemma key_of_string [simp]: "key_of js (Some (JStr s)) = Some s"
  by (simp add: key_of_def)



lemma idmap_set_plain:
  "k \<noteq> ''__proto__'' \<Longrightarrow> idmap_set m k v = m\<lparr>props := AList.update k v (props m)\<rparr>"
  by (simp add: idmap_set_def)

lemma idmap_get_absent:
  assumes "k \<notin> fst ` set (props m)" and "proto m = ObjectPrototype" and "k \<notin> set object_prototype"
  shows "idmap_get js m k = Plain None"
proof -
  from assms(1) have "map_of (props m) k = None" by (simp add: map_of_eq_None_iff)
  moreover from assms(3) have "k \<noteq> ''__proto__''" by (auto simp: object_prototype_def)
  ultimately show ?thesis using assms(2,3)
    by (simp add: idmap_get_def from_object_prototype_def)
qed

lemma remap_other:
  assumes "remap js m fk r = Some x" and "k \<noteq> fk"
  shows "field x k = field r k"
  using assms by (auto simp: remap_def field_set_field split: if_splits option.splits)


lemma remap_both_other:
  assumes "remap_both js s r = Some x" and "k \<noteq> ''carId''" and "k \<noteq> ''trackId''"
  shows "field x k = field r k"
proof -
  from assms(1) obtain y where y: "remap js (carIdMap s) ''carId'' r = Some y"
    "remap js (trackIdMap s) ''trackId'' y = Some x"
    by (auto simp: remap_both_def split: option.splits)
  from remap_other[OF y(2), of k] remap_other[OF y(1), of k] assms(2,3) show ?thesis by simp
qed

subsubsection \<open>One car, one track\<close>







subsubsection \<open>The cars and the tracks of the envelope\<close>


lemma string_ids_field:
  assumes "string_ids xs" and "x \<in> set xs"
  shows "\<exists>i. field x ''id'' = Some (JStr i) \<and> i \<noteq> []"
proof -
  from assms have "case field x ''id'' of Some (JStr i) \<Rightarrow> i \<noteq> [] | _ \<Rightarrow> False"
    by (simp add: string_ids_def list_all_iff)
  then show ?thesis by (auto split: option.splits jval.splits)
qed

lemma start_import_simps:
  "db (start_import st) = st" "carIdMap (start_import st) = empty_map"
  "trackIdMap (start_import st) = empty_map" "sessionIdMap (start_import st) = empty_map"
  "skippedCarIds (start_import st) = []" "skippedTrackIds (start_import st) = []"
  "uuids (start_import st) = 0"
  by (simp_all add: start_import_def)






subsubsection \<open>The insertion loops\<close>












subsubsection \<open>What a block leaves as it is\<close>

lemma import_setups_frame:
  assumes "import_setups js ow uuidv4 uid x s = Inr s'"
  shows "carIdMap s' = carIdMap s \<and> trackIdMap s' = trackIdMap s
    \<and> skippedCarIds s' = skippedCarIds s \<and> skippedTrackIds s' = skippedTrackIds s
    \<and> cars (db s') = cars (db s) \<and> tracks (db s') = tracks (db s)
    \<and> sessions (db s') = sessions (db s) \<and> cornerNotes (db s') = cornerNotes (db s)
    \<and> trackNotes (db s') = trackNotes (db s) \<and> maintenance (db s') = maintenance (db s)"
  using assms
  by (auto simp: import_setups_def split: option.splits list.splits prod.splits)










subsubsection \<open>The files after a block, whether or not it throws\<close>

lemma import_sessions_files:
  "cars (files (import_sessions js ow uuidv4 uid x y s)) = cars (db s)"
  "setups (files (import_sessions js ow uuidv4 uid x y s)) = setups (db s)"
  by (cases ow; auto simp: files_def import_sessions_def Let_def
        split: option.splits list.splits prod.splits sum.splits)+

lemma import_track_notes_files:
  "cars (files (import_track_notes js ow uuidv4 uid x s)) = cars (db s)"
  "setups (files (import_track_notes js ow uuidv4 uid x s)) = setups (db s)"
  by (cases ow; auto simp: files_def import_track_notes_def
        split: option.splits list.splits prod.splits sum.splits)+

lemma import_maintenance_files:
  "cars (files (import_maintenance js ow uuidv4 uid x s)) = cars (db s)"
  "setups (files (import_maintenance js ow uuidv4 uid x s)) = setups (db s)"
  by (cases ow; auto simp: files_def import_maintenance_def
        split: option.splits list.splits prod.splits sum.splits)+

lemma files_and_then:
  assumes "\<And>s. P (files (block s)) = P (db s)"
  shows "P (files (and_then r block)) = P (files r)"
  using assms by (cases r) (simp_all add: and_then_def files_def)


subsubsection \<open>Each block inserts\<close>





subsubsection \<open>The fields of an inserted copy\<close>






subsubsection \<open>The route\<close>



subsection \<open>A reference that the envelope does not resolve\<close>





subsection \<open>Export and import again\<close>

lemma only_one_key:
  assumes "distinct (map f xs)" and "x \<in> set xs"
  shows "filter (\<lambda>y. f y = f x) xs = [x]"
  using assms
proof (induction xs)
  case Nil
  then show ?case by simp
next
  case (Cons a xs)
  from Cons.prems(1) have fa: "f a \<notin> f ` set xs" and d: "distinct (map f xs)" by simp_all
  show ?case
  proof (cases "a = x")
    case True
    have "\<forall>y \<in> set xs. f y \<noteq> f x"
    proof
      fix y assume y: "y \<in> set xs"
      show "f y \<noteq> f x"
      proof
        assume "f y = f x"
        with True have "f a = f y" by simp
        with y have "f a \<in> f ` set xs" by (rule image_eqI[rotated])
        with fa show False by simp
      qed
    qed
    then have "filter (\<lambda>y. f y = f x) xs = []" by (simp add: filter_empty_conv)
    with True show ?thesis by simp
  next
    case False
    with Cons.prems(2) have x: "x \<in> set xs" by simp
    have "f a \<noteq> f x"
    proof
      assume "f a = f x"
      with x have "f a \<in> f ` set xs" by (rule image_eqI[rotated])
      with fa show False by simp
    qed
    moreover from Cons.IH[OF d x] have "filter (\<lambda>y. f y = f x) xs = [x]" .
    ultimately show ?thesis by simp
  qed
qed

lemma only_one:
  assumes "distinct (map f xs)" and "x \<in> set xs" and "P x"
      and "\<forall>y \<in> set xs. P y \<longrightarrow> f y = f x"
  shows "filter P xs = [x]"
proof -
  have "filter P xs = filter P (filter (\<lambda>y. f y = f x) xs)"
    unfolding filter_filter by (rule filter_cong[OF refl]) (use assms(4) in blast)
  also have "\<dots> = [x]" unfolding only_one_key[OF assms(1,2)] using assms(3) by simp
  finally show ?thesis .
qed

lemma same_id_same_record:
  assumes "unique_ids xs" and "x \<in> set xs" and "y \<in> set xs" and "field x ''id'' = field y ''id''"
  shows "x = y"
proof -
  from assms(1) have "inj_on (\<lambda>r. field r ''id'') (set xs)"
    by (simp add: unique_ids_def distinct_map)
  from inj_onD[OF this assms(4,2,3)] show ?thesis .
qed

lemma js_includes_single: "js_includes [Some (JStr c)] v \<longleftrightarrow> v = Some (JStr c)"
  by (auto simp: js_includes_def strict_eq_def)

lemma exported_setups:
  "c \<noteq> [] \<Longrightarrow> filter (\<lambda>x. owner_is uid x \<and> in_selection [JStr c] [] x) xs = referencing uid c xs"
  unfolding referencing_def
  by (rule filter_cong[OF refl]) (auto simp: in_selection_def js_includes_single)

lemma tied_car_only:
  "c \<noteq> [] \<Longrightarrow> filter (tied uid [Some (JStr c)] []) xs = referencing uid c xs"
  unfolding referencing_def
  by (rule filter_cong[OF refl]) (auto simp: tied_def js_includes_single)

lemma exported_car:
  assumes "C \<in> set (cars st)" and "owner_is uid C" and "field C ''id'' = Some (JStr c)"
      and "unique_ids (cars st)"
  shows "filter (\<lambda>x. js_includes (map Some [JStr c]) (field x ''id'')) (filter (owner_is uid) (cars st)) = [C]"
proof -
  have "filter (\<lambda>x. owner_is uid x \<and> field x ''id'' = Some (JStr c)) (cars st) = [C]"
    using assms(4)[unfolded unique_ids_def] assms(1)
    by (rule only_one) (simp_all add: assms)
  then show ?thesis by (simp add: js_includes_single conj_commute)
qed

lemma post_export_car:
  assumes "C \<in> set (cars st)" and "owner_is uid C" and "field C ''id'' = Some (JStr c)"
      and "unique_ids (cars st)" and "c \<noteq> []"
      and "post_export uid [JStr c] [] flags st = Inr env" and "includeSetups flags"
  shows "\<exists>d. data env = Some d \<and> version env = Some (JNum 1) \<and> d_cars d = [C] \<and> d_tracks d = []
            \<and> d_setups d = Some (referencing uid c (setups st))
            \<and> (\<not> includeSessions flags \<longrightarrow> d_sessions d = None \<and> d_cornerNotes d = None)
            \<and> (\<not> includeTrackNotes flags \<longrightarrow> d_trackNotes d = None)
            \<and> (\<forall>inc. d_maintenance d = Some inc \<longrightarrow>
                   (\<forall>e \<in> set inc. field e ''carId'' = Some (JStr c)))"
proof -
  note c = exported_car[OF assms(1-4)]
  let ?d = "\<lparr>d_cars = [C], d_tracks = [], d_setups = Some (referencing uid c (setups st)),
             d_sessions = (if includeSessions flags then Some (export_sessions uid [JStr c] [] st) else None),
             d_cornerNotes = (if includeSessions flags
                     then Some (filter (\<lambda>cn. js_includes (map (\<lambda>s. field s ''id'')
                                                  (export_sessions uid [JStr c] [] st))
                                                (field cn ''sessionId''))
                                  (filter (owner_is uid) (cornerNotes st)))
                     else None),
             d_trackNotes = (if includeTrackNotes flags
                     then Some (filter (in_selection [JStr c] []) (filter (owner_is uid) (trackNotes st)))
                     else None),
             d_maintenance = (if includeMaintenance flags
                     then Some (filter (\<lambda>m. truthy (field m ''carId'') \<and>
                                              js_includes (map Some [JStr c]) (field m ''carId''))
                                  (filter (owner_is uid) (maintenance st)))
                     else None)\<rparr>"
  have s: "filter (in_selection [JStr c] []) (filter (owner_is uid) (setups st)) = referencing uid c (setups st)"
    using exported_setups[OF assms(5), of uid "setups st"] by simp
  have t: "filter (\<lambda>t. js_includes (map Some []) (field t ''id'')) xs = []" for xs :: "obj list"
    by (simp add: js_includes_def)
  from assms(6) have "env = \<lparr>version = Some (JNum 1), data = Some ?d\<rparr>"
    unfolding post_export_def c s t using assms(7) by simp
  then have "data env = Some ?d" "version env = Some (JNum 1)" by simp_all
  moreover have "d_cars ?d = [C]" "d_tracks ?d = []" "d_setups ?d = Some (referencing uid c (setups st))"
    "\<not> includeSessions flags \<longrightarrow> d_sessions ?d = None \<and> d_cornerNotes ?d = None"
    "\<not> includeTrackNotes flags \<longrightarrow> d_trackNotes ?d = None"
    by simp_all
  moreover have "\<forall>inc. d_maintenance ?d = Some inc \<longrightarrow>
                   (\<forall>e \<in> set inc. field e ''carId'' = Some (JStr c))"
    by (auto simp: js_includes_single split: if_splits)
  ultimately show ?thesis by blast
qed

lemma overwrite_car_same:
  assumes "car_matches C m"
  shows "overwrite_car C m = m"
proof -
  from assms have "field C ''name'' = field m ''name''" "field C ''manufacturer'' = field m ''manufacturer''"
    "field C ''series'' = field m ''series''"
    by (auto simp: car_matches_def strict_eq_def)
  then show ?thesis by (simp add: overwrite_car_def set_field_same)
qed

lemma assign_first_fix: "(\<forall>x \<in> set xs. P x \<longrightarrow> f x = x) \<Longrightarrow> assign_first P f xs = xs"
  by (induction xs) auto

lemma find_own_car:
  assumes "C \<in> set (cars st)" and "owner_is uid C"
      and "primitive (field C ''name'')" and "primitive (field C ''manufacturer'')"
      and "primitive (field C ''series'')"
  shows "\<exists>m. List.find (car_matches C) (filter (owner_is uid) (cars st)) = Some m
             \<and> m \<in> set (cars st) \<and> owner_is uid m \<and> car_matches C m"
proof -
  have "car_matches C C" using assms(3-5) by (simp add: car_matches_def strict_eq_def)
  with assms(1,2) have "List.find (car_matches C) (filter (owner_is uid) (cars st)) \<noteq> None"
    by (auto simp: find_None_iff)
  then obtain m where m: "List.find (car_matches C) (filter (owner_is uid) (cars st)) = Some m" by auto
  from find_split[OF m] obtain pre post where
    "filter (owner_is uid) (cars st) = pre @ m # post" "car_matches C m" by blast
  then have "m \<in> set (filter (owner_is uid) (cars st))" "car_matches C m" by simp_all
  with m show ?thesis by simp
qed

lemma import_own_car:
  assumes find: "List.find (car_matches C) (filter (owner_is uid) (cars st)) = Some m"
      and m: "m \<in> set (cars st)" "car_matches C m"
      and ids: "unique_ids (cars st)"
      and c: "field C ''id'' = Some (JStr c)" "c \<noteq> ''__proto__''"
  shows "import_cars js True uuidv4 uid [C] (start_import st) =
           Inr ((start_import st)\<lparr>carIdMap := \<lparr>props = [(c, field m ''id'')], proto = ObjectPrototype\<rparr>,
              summary := (summary (start_import st))\<lparr>carsImported := 1\<rparr>\<rparr>)"
proof -
  let ?s0 = "start_import st"
  have a: "assign_first (\<lambda>x. strict_eq (field x ''id'') (field m ''id'')) (overwrite_car C) (cars st) = cars st"
  proof (rule assign_first_fix, intro ballI impI)
    fix x assume x: "x \<in> set (cars st)" "strict_eq (field x ''id'') (field m ''id'')"
    then have "field x ''id'' = field m ''id''" by (simp add: strict_eq_def)
    from same_id_same_record[OF ids x(1) m(1) this] overwrite_car_same[OF m(2)]
    show "overwrite_car C x = x" by simp
  qed
  have s0: "db ?s0 = st" "carIdMap ?s0 = empty_map" "carsImported (summary ?s0) = 0"
    by (simp_all add: start_import_def)
  have k: "idmap_set empty_map c (field m ''id'') = \<lparr>props = [(c, field m ''id'')], proto = ObjectPrototype\<rparr>"
    by (simp add: idmap_set_plain[OF c(2)] empty_map_def)
  have "import_car js True uuidv4 uid (filter (owner_is uid) (cars st)) C ?s0 =
          Some (?s0\<lparr>carIdMap := idmap_set (carIdMap ?s0) c (field m ''id''),
              db := (db ?s0)\<lparr>cars := assign_first (\<lambda>c. strict_eq (field c ''id'') (field m ''id''))
                                     (overwrite_car C) (cars (db ?s0))\<rparr>,
              summary := (summary ?s0)\<lparr>carsImported := carsImported (summary ?s0) + 1\<rparr>\<rparr>)"
    unfolding import_car_def find c(1) by simp
  also have "?s0\<lparr>carIdMap := idmap_set (carIdMap ?s0) c (field m ''id''),
              db := (db ?s0)\<lparr>cars := assign_first (\<lambda>c. strict_eq (field c ''id'') (field m ''id''))
                                     (overwrite_car C) (cars (db ?s0))\<rparr>,
              summary := (summary ?s0)\<lparr>carsImported := carsImported (summary ?s0) + 1\<rparr>\<rparr>
        = ?s0\<lparr>carIdMap := \<lparr>props = [(c, field m ''id'')], proto = ObjectPrototype\<rparr>, db := st,
              summary := (summary ?s0)\<lparr>carsImported := 1\<rparr>\<rparr>"
    unfolding s0 k a by simp
  also have "\<dots> = ?s0\<lparr>carIdMap := \<lparr>props = [(c, field m ''id'')], proto = ObjectPrototype\<rparr>,
              summary := (summary ?s0)\<lparr>carsImported := 1\<rparr>\<rparr>"
    by (simp add: start_import_def)
  finally have "import_car js True uuidv4 uid (filter (owner_is uid) (cars st)) C ?s0 =
      Some (?s0\<lparr>carIdMap := \<lparr>props = [(c, field m ''id'')], proto = ObjectPrototype\<rparr>,
              summary := (summary ?s0)\<lparr>carsImported := 1\<rparr>\<rparr>)" .
  then show ?thesis by (simp add: import_cars_def written_def s0)
qed

lemma push_copy_list:
  assumes "\<And>e i. e \<in> set inc \<Longrightarrow> rm (fresh_copy i uid e) = Some (g i e)"
  shows "fold_opt (push_copy uuidv4 uid rm) inc (xs, n, a, b) =
     Some (xs @ map (\<lambda>(i, e). g (uuidv4 i) e) (enumerate n inc), n + length inc, a + length inc, b)"
  using assms
proof (induction inc arbitrary: xs n a b)
  case Nil
  then show ?case by simp
next
  case (Cons e inc)
  have "push_copy uuidv4 uid rm e (xs, n, a, b) = Some (xs @ [g (uuidv4 n) e], n + 1, a + 1, b)"
    by (simp add: push_copy_def Cons.prems)
  moreover have "fold_opt (push_copy uuidv4 uid rm) inc (xs @ [g (uuidv4 n) e], n + 1, a + 1, b) =
     Some ((xs @ [g (uuidv4 n) e]) @ map (\<lambda>(i, e). g (uuidv4 i) e) (enumerate (n + 1) inc),
           n + 1 + length inc, a + 1 + length inc, b)"
    by (rule Cons.IH) (simp add: Cons.prems)
  ultimately show ?case by simp
qed

lemma copy_referencing:
  "owner_is uid (set_field ''carId'' (Some (JStr mi)) (fresh_copy i uid e))"
  "field (set_field ''carId'' (Some (JStr mi)) (fresh_copy i uid e)) ''carId'' = Some (JStr mi)"
  by (simp_all add: owner_is_iff field_set_field field_fresh_copy)

lemma referencing_append:
  "referencing uid c (xs @ ys) = referencing uid c xs @ referencing uid c ys"
  by (simp add: referencing_def)

lemma referencing_purged: "referencing uid c (without_ids (referencing uid c xs) xs) = []"
  by (auto simp: referencing_def without_ids_def has_id_of_def filter_empty_conv)

lemma referencing_kept:
  assumes "unique_ids xs" and "mi \<noteq> c"
  shows "referencing uid c (without_ids (referencing uid mi xs) xs) = referencing uid c xs"
proof -
  have "filter (\<lambda>s. owner_is uid s \<and> field s ''carId'' = Some (JStr c))
          (filter (\<lambda>s. \<not> has_id_of (referencing uid mi xs) s) xs)
        = filter (\<lambda>s. owner_is uid s \<and> field s ''carId'' = Some (JStr c)) xs"
    unfolding filter_filter
  proof (rule filter_cong[OF refl])
    fix s assume s: "s \<in> set xs"
    have "\<not> has_id_of (referencing uid mi xs) s" if p: "field s ''carId'' = Some (JStr c)"
    proof
      assume "has_id_of (referencing uid mi xs) s"
      then consider "s \<in> set (referencing uid mi xs)"
        | d where "d \<in> set (referencing uid mi xs)" "strict_eq (field d ''id'') (field s ''id'')"
        unfolding has_id_of_iff by blast
      then have "s \<in> set (referencing uid mi xs)"
      proof cases
        case 1
        then show ?thesis .
      next
        case 2
        from 2(1) have dx: "d \<in> set xs" by (simp add: referencing_def)
        from 2(2) have "field d ''id'' = field s ''id''" by (simp add: strict_eq_def)
        from same_id_same_record[OF assms(1) dx s this] 2(1) show ?thesis by simp
      qed
      then have "field s ''carId'' = Some (JStr mi)" by (simp add: referencing_def)
      with p assms(2) show False by simp
    qed
    then show "(\<not> has_id_of (referencing uid mi xs) s \<and> owner_is uid s \<and> field s ''carId'' = Some (JStr c))
             = (owner_is uid s \<and> field s ''carId'' = Some (JStr c))"
      by blast
  qed
  then show ?thesis by (simp add: referencing_def without_ids_def)
qed

lemma referencing_copies:
  "referencing uid c (map (\<lambda>(i, e). set_field ''carId'' (Some (JStr mi)) (fresh_copy (uuidv4 i) uid e)) ps)
     = (if mi = c then map (\<lambda>(i, e). set_field ''carId'' (Some (JStr mi)) (fresh_copy (uuidv4 i) uid e)) ps
        else [])"
  by (induction ps) (auto simp: referencing_def copy_referencing)

lemma same_car_copy:
  assumes "field e ''carId'' = Some (JStr c)"
  shows "set_field ''carId'' (Some (JStr c)) (fresh_copy i uid e) = fresh_copy i uid e"
proof -
  have "field (fresh_copy i uid e) ''carId'' = Some (JStr c)" by (simp add: field_fresh_copy assms)
  from set_field_same[of "''carId''" "fresh_copy i uid e", unfolded this] show ?thesis .
qed

lemma remapped_car:
  assumes "field e ''carId'' = Some (JStr c)" and "c \<noteq> []" and "mi \<noteq> []"
      and "props m = [(c, Some (JStr mi))]"
  shows "remap js m ''carId'' (fresh_copy i uid e) =
           Some (set_field ''carId'' (Some (JStr mi)) (fresh_copy i uid e))"
proof -
  let ?y = "fresh_copy i uid e"
  have y: "field ?y ''carId'' = Some (JStr c)" by (simp add: field_fresh_copy assms(1))
  have g: "idmap_get js m c = Plain (Some (JStr mi))"
    by (simp add: idmap_get_def assms(4))
  show ?thesis
    unfolding remap_def y using assms(2,3) by (simp add: g or_stored_def or_else_def)
qed

lemma remap_plain:
  assumes "plain_reference (field z fk)"
  shows "remap js empty_map fk z = Some z"
proof (cases "truthy (field z fk)")
  case False
  then show ?thesis by (simp add: remap_def)
next
  case True
  with assms obtain t where t: "field z fk = Some (JStr t)" "t \<notin> set object_prototype"
    by (auto simp: plain_reference_def split: option.splits jval.splits)
  have "idmap_get js empty_map t = Plain None"
    by (rule idmap_get_absent) (simp_all add: empty_map_def t(2))
  then have "remap js empty_map fk z = Some (set_field fk (field z fk) z)"
    using True by (simp add: remap_def t(1) or_stored_def or_else_def)
  then show ?thesis by (simp add: set_field_same)
qed

lemma remapped_copy:
  assumes "field e ''carId'' = Some (JStr c)" and "c \<noteq> []" and "mi \<noteq> []"
      and "props (carIdMap s) = [(c, Some (JStr mi))]" and "trackIdMap s = empty_map"
      and "plain_reference (field e ''trackId'')"
  shows "remap_both js s (fresh_copy i uid e) = Some (set_field ''carId'' (Some (JStr mi)) (fresh_copy i uid e))"
proof -
  let ?z = "set_field ''carId'' (Some (JStr mi)) (fresh_copy i uid e)"
  have "field ?z ''trackId'' = field e ''trackId''"
    by (simp add: field_set_field field_fresh_copy)
  with assms(6) have "plain_reference (field ?z ''trackId'')" by simp
  from remap_plain[OF this] remapped_car[OF assms(1-4)] show ?thesis
    by (simp add: remap_both_def assms(5))
qed

lemma import_own_setups:
  assumes s: "props (carIdMap s) = [(c, Some (JStr mi))]" "trackIdMap s = empty_map" "uuids s = 0"
      and c: "c \<noteq> []" "mi \<noteq> []"
      and E: "E \<noteq> []" "\<forall>e \<in> set E. field e ''carId'' = Some (JStr c)"
             "\<forall>e \<in> set E. plain_reference (field e ''trackId'')"
  shows "\<exists>s'. import_setups js True uuidv4 uid (Some E) s = Inr s'
           \<and> setups (db s') = without_ids (referencing uid mi (setups (db s))) (setups (db s))
                                @ copies uuidv4 uid mi E
           \<and> cars (db s') = cars (db s)"
proof -
  have v: "idmap_values (carIdMap s) = [Some (JStr mi)]" "idmap_values (trackIdMap s) = []"
    by (simp_all add: idmap_values_def s empty_map_def)
  have l: "fold_opt (push_copy uuidv4 uid (remap_both js s)) E
             (without_ids (referencing uid mi (setups (db s))) (setups (db s)), 0, 0, 0) =
           Some (without_ids (referencing uid mi (setups (db s))) (setups (db s))
                   @ map (\<lambda>(i, e). set_field ''carId'' (Some (JStr mi)) (fresh_copy (uuidv4 i) uid e))
                       (enumerate 0 E),
                 0 + length E, 0 + length E, 0)"
  proof (rule push_copy_list)
    fix e i assume "e \<in> set E"
    with E(2,3) have "field e ''carId'' = Some (JStr c)" "plain_reference (field e ''trackId'')"
      by simp_all
    from remapped_copy[OF this(1) c s(1,2) this(2)]
    show "remap_both js s (fresh_copy i uid e) = Some (set_field ''carId'' (Some (JStr mi)) (fresh_copy i uid e))" .
  qed
  from E(1) obtain a l' where al: "E = a # l'" by (cases E) auto
  have "import_setups js True uuidv4 uid (Some E) s =
     (case fold_opt (push_copy uuidv4 uid (remap_both js s)) E
             (without_ids (referencing uid mi (setups (db s))) (setups (db s)), 0, 0, 0) of
        None \<Rightarrow> Inl (db s)
      | Some (xs, n, imported, skipped) \<Rightarrow>
          Inr (s\<lparr>db := (db s)\<lparr>setups := xs\<rparr>, uuids := n,
                 summary := (summary s)\<lparr>setupsImported := setupsImported (summary s) + imported,
                                        setupsSkipped := setupsSkipped (summary s) + skipped\<rparr>\<rparr>))"
    unfolding import_setups_def al
    by (simp del: fold_opt.simps add: v s(3) tied_car_only[OF c(2)])
  then show ?thesis unfolding l by (simp add: copies_def)
qed

lemma import_own_maintenance:
  assumes s: "props (carIdMap s) = [(c, Some (JStr mi))]"
      and c: "c \<noteq> []" "mi \<noteq> []"
      and E: "\<forall>inc. x = Some inc \<longrightarrow> (\<forall>e \<in> set inc. field e ''carId'' = Some (JStr c))"
  shows "\<exists>s'. import_maintenance js True uuidv4 uid x s = Inr s'"
proof (cases x)
  case None
  then show ?thesis by (simp add: import_maintenance_def)
next
  case (Some inc)
  show ?thesis
  proof (cases inc)
    case Nil
    with Some show ?thesis by (simp add: import_maintenance_def)
  next
    case (Cons a l')
    have "\<exists>acc. fold_opt (push_copy uuidv4 uid (remap js (carIdMap s) ''carId'')) inc (xs, n, i, k) = Some acc"
      for xs n i k
    proof -
      have "fold_opt (push_copy uuidv4 uid (remap js (carIdMap s) ''carId'')) inc (xs, n, i, k) =
        Some (xs @ map (\<lambda>(i, e). set_field ''carId'' (Some (JStr mi)) (fresh_copy (uuidv4 i) uid e))
                     (enumerate n inc), n + length inc, i + length inc, k)"
      proof (rule push_copy_list)
        fix e i assume "e \<in> set inc"
        with E Some have "field e ''carId'' = Some (JStr c)" by simp
        from remapped_car[OF this c s]
        show "remap js (carIdMap s) ''carId'' (fresh_copy i uid e) =
                Some (set_field ''carId'' (Some (JStr mi)) (fresh_copy i uid e))" .
      qed
      then show ?thesis by simp
    qed
    then obtain acc where "fold_opt (push_copy uuidv4 uid (remap js (carIdMap s) ''carId'')) inc
         (without_ids (filter (tied_car uid (idmap_values (carIdMap s))) (maintenance (db s)))
                    (maintenance (db s)), uuids s, 0, 0) = Some acc" by blast
    then show ?thesis
      unfolding import_maintenance_def Some Cons[symmetric]
      by (cases acc) (simp del: fold_opt.simps add: Cons)
  qed
qed

lemma post_import_files:
  assumes "data env = Some d" and "version env = Some (JNum 1)"
  shows "snd (post_import js uuidv4 extname uid (Some env) (Some (JStr ''overwrite'')) st) =
           files (import_all js True uuidv4 extname uid d st)"
    and "(\<exists>s. import_all js True uuidv4 extname uid d st = Inr s) \<Longrightarrow>
           \<exists>sm. fst (post_import js uuidv4 extname uid (Some env) (Some (JStr ''overwrite'')) st) = Inr sm"
proof -
  have m: "js_includes import_modes (Some (JStr ''overwrite''))"
          "strict_eq (Some (JStr ''overwrite'')) (Some (JStr ''overwrite''))"
    by (simp_all add: js_includes_def import_modes_def strict_eq_def)
  show "snd (post_import js uuidv4 extname uid (Some env) (Some (JStr ''overwrite'')) st) =
           files (import_all js True uuidv4 extname uid d st)"
    by (simp add: post_import_def assms m files_def split: sum.splits)
  show "\<exists>sm. fst (post_import js uuidv4 extname uid (Some env) (Some (JStr ''overwrite'')) st) = Inr sm"
    if "\<exists>s. import_all js True uuidv4 extname uid d st = Inr s"
    using that by (auto simp: post_import_def assms m)
qed

lemma later_blocks:
  "cars (files (and_then (and_then (and_then r
      (import_sessions js ow uuidv4 uid x y))
      (import_track_notes js ow uuidv4 uid z))
      (import_maintenance js ow uuidv4 uid w))) = cars (files r)"
  "setups (files (and_then (and_then (and_then r
      (import_sessions js ow uuidv4 uid x y))
      (import_track_notes js ow uuidv4 uid z))
      (import_maintenance js ow uuidv4 uid w))) = setups (files r)"
proof -
  note a = files_and_then[where P = cars and block = "import_maintenance js ow uuidv4 uid w",
             OF import_maintenance_files(1)]
           files_and_then[where P = cars and block = "import_track_notes js ow uuidv4 uid z",
             OF import_track_notes_files(1)]
           files_and_then[where P = cars and block = "import_sessions js ow uuidv4 uid x y",
             OF import_sessions_files(1)]
  note b = files_and_then[where P = setups and block = "import_maintenance js ow uuidv4 uid w",
             OF import_maintenance_files(2)]
           files_and_then[where P = setups and block = "import_track_notes js ow uuidv4 uid z",
             OF import_track_notes_files(2)]
           files_and_then[where P = setups and block = "import_sessions js ow uuidv4 uid x y",
             OF import_sessions_files(2)]
  show "cars (files (and_then (and_then (and_then r
      (import_sessions js ow uuidv4 uid x y))
      (import_track_notes js ow uuidv4 uid z))
      (import_maintenance js ow uuidv4 uid w))) = cars (files r)"
    by (simp only: a)
  show "setups (files (and_then (and_then (and_then r
      (import_sessions js ow uuidv4 uid x y))
      (import_track_notes js ow uuidv4 uid z))
      (import_maintenance js ow uuidv4 uid w))) = setups (files r)"
    by (simp only: b)
qed

text \<open>
  C8. The claim fails when the user has another car with the same name, manufacturer and
  series stored before the exported one: the import matches that car, leaves the setups
  of the exported car in place and gives the copies to the other car. What holds, in a
  store whose car ids are distinct non-empty strings and whose setup ids are distinct,
  for a car \<open>C\<close> of the user whose name, manufacturer and series are no arrays or objects,
  whose id is not \<^verbatim>\<open>__proto__\<close>, and whose setups have a \<^verbatim>\<open>trackId\<close> that is falsy or a
  string that names no property of \<^verbatim>\<open>Object.prototype\<close>. The export of \<open>C\<close> with the
  setups flag holds \<open>C\<close> and the user's setups that name it. Importing it in overwrite
  mode matches the first car \<open>m\<close> of the user with the name, manufacturer and series of
  \<open>C\<close> and leaves the cars as they were, whatever the import answers. When no setup was
  exported the setups are left as they were; otherwise the setups after the import are
  the former ones without the user's setups of \<open>m\<close>, followed by one copy of each exported
  setup with a new id, the user's id and the id of \<open>m\<close> as \<^verbatim>\<open>carId\<close>. So the user has as
  many setups that name \<open>C\<close> as were exported; when \<open>m\<close> is another car than \<open>C\<close> they are
  the former ones, untouched, and when \<open>m\<close> is \<open>C\<close> they are the fresh copies. The import
  succeeds when neither the sessions nor the track notes were exported.
\<close>

theorem reimport_overwrite_round_trip:
  assumes car: "C \<in> set (cars st)" "owner_is uid C" "field C ''id'' = Some (JStr c)"
               "c \<noteq> ''__proto__''"
      and ids: "unique_ids (cars st)" "string_ids (cars st)" "unique_ids (setups st)"
      and names: "primitive (field C ''name'')" "primitive (field C ''manufacturer'')"
                 "primitive (field C ''series'')"
      and refs: "\<forall>e \<in> set (referencing uid c (setups st)). plain_reference (field e ''trackId'')"
      and exp: "post_export uid [JStr c] [] flags st = Inr env" "includeSetups flags"
      and imp: "post_import js uuidv4 extname uid (Some env) (Some (JStr ''overwrite'')) st = (res, st')"
  shows "\<exists>d m mi. data env = Some d \<and> d_cars d = [C]
           \<and> d_setups d = Some (referencing uid c (setups st))
           \<and> List.find (car_matches C) (filter (owner_is uid) (cars st)) = Some m
           \<and> field m ''id'' = Some (JStr mi)
           \<and> cars st' = cars st
           \<and> setups st' =
               (if referencing uid c (setups st) = [] then setups st
                else without_ids (referencing uid mi (setups st)) (setups st)
                       @ copies uuidv4 uid mi (referencing uid c (setups st)))
           \<and> length (referencing uid c (setups st')) = length (referencing uid c (setups st))
           \<and> (m \<noteq> C \<longrightarrow> referencing uid c (setups st') = referencing uid c (setups st))
           \<and> (referencing uid c (setups st) \<noteq> [] \<longrightarrow>
                referencing uid mi (setups st') = copies uuidv4 uid mi (referencing uid c (setups st)))
           \<and> (m = C \<longrightarrow> mi = c \<and>
                copies uuidv4 uid mi (referencing uid c (setups st)) =
                  map (\<lambda>(n, e). fresh_copy (uuidv4 n) uid e) (enumerate 0 (referencing uid c (setups st))))
           \<and> (\<not> includeSessions flags \<and> \<not> includeTrackNotes flags \<longrightarrow> (\<exists>sm. res = Inr sm))"
proof -
  let ?E = "referencing uid c (setups st)"
  from string_ids_field[OF ids(2) car(1)] car(3) have c: "c \<noteq> []" by auto
  from post_export_car[OF car(1-3) ids(1) c exp] obtain d where
    d: "data env = Some d" "version env = Some (JNum 1)" "d_cars d = [C]" "d_tracks d = []"
       "d_setups d = Some ?E"
       "\<not> includeSessions flags \<longrightarrow> d_sessions d = None \<and> d_cornerNotes d = None"
       "\<not> includeTrackNotes flags \<longrightarrow> d_trackNotes d = None"
       "\<forall>inc. d_maintenance d = Some inc \<longrightarrow> (\<forall>e \<in> set inc. field e ''carId'' = Some (JStr c))"
    by blast
  from find_own_car[OF car(1,2) names] obtain m where
    m: "List.find (car_matches C) (filter (owner_is uid) (cars st)) = Some m"
       "m \<in> set (cars st)" "owner_is uid m" "car_matches C m"
    by blast
  from string_ids_field[OF ids(2) m(2)] obtain mi where
    mi: "field m ''id'' = Some (JStr mi)" "mi \<noteq> []" by blast
  define s1 where "s1 = (start_import st)\<lparr>carIdMap := \<lparr>props = [(c, field m ''id'')], proto = ObjectPrototype\<rparr>,
              summary := (summary (start_import st))\<lparr>carsImported := 1\<rparr>\<rparr>"
  have i1: "import_cars js True uuidv4 uid [C] (start_import st) = Inr s1"
    unfolding s1_def by (rule import_own_car[OF m(1,2,4) ids(1) car(3,4)])
  have s1: "props (carIdMap s1) = [(c, Some (JStr mi))]" "trackIdMap s1 = empty_map" "uuids s1 = 0"
           "db s1 = st"
    by (simp_all add: s1_def start_import_simps mi)
  have i2: "import_tracks js True uuidv4 extname uid [] s1 = Inr s1"
    by (simp add: import_tracks_def written_def)
  define r3 where "r3 = import_setups js True uuidv4 uid (Some ?E) s1"
  have all: "import_all js True uuidv4 extname uid d st =
      and_then (and_then (and_then r3
        (import_sessions js True uuidv4 uid (d_sessions d) (d_cornerNotes d)))
        (import_track_notes js True uuidv4 uid (d_trackNotes d)))
        (import_maintenance js True uuidv4 uid (d_maintenance d))"
    unfolding import_all_def d(3,4,5) i1 r3_def by (simp add: and_then_def i2)
  have "\<exists>s3. r3 = Inr s3 \<and> cars (db s3) = cars st \<and> carIdMap s3 = carIdMap s1
          \<and> setups (db s3) = (if ?E = [] then setups st
                else without_ids (referencing uid mi (setups st)) (setups st) @ copies uuidv4 uid mi ?E)"
  proof (cases "?E = []")
    case True
    then have "r3 = Inr s1" by (simp add: r3_def import_setups_def)
    with True s1(4) show ?thesis by simp
  next
    case False
    have a: "\<forall>e \<in> set ?E. field e ''carId'' = Some (JStr c)" by (simp add: referencing_def)
    from import_own_setups[OF s1(1,2,3) c mi(2) False a refs, of js uuidv4 uid] obtain s3 where
      s3: "import_setups js True uuidv4 uid (Some ?E) s1 = Inr s3"
          "setups (db s3) = without_ids (referencing uid mi (setups (db s1))) (setups (db s1))
                                @ copies uuidv4 uid mi ?E"
          "cars (db s3) = cars (db s1)"
      by blast
    from import_setups_frame[OF s3(1)] have "carIdMap s3 = carIdMap s1" by simp
    with s3 False s1(4) show ?thesis by (simp add: r3_def)
  qed
  then obtain s3 where s3: "r3 = Inr s3" "cars (db s3) = cars st" "carIdMap s3 = carIdMap s1"
    "setups (db s3) = (if ?E = [] then setups st
                else without_ids (referencing uid mi (setups st)) (setups st) @ copies uuidv4 uid mi ?E)"
    by blast
  from imp post_import_files(1)[OF d(1,2), of js uuidv4 extname uid st]
  have st': "st' = files (import_all js True uuidv4 extname uid d st)" by simp
  have cars: "cars st' = cars st"
    unfolding st' all later_blocks by (simp add: s3 files_def)
  have setups: "setups st' = (if ?E = [] then setups st
                else without_ids (referencing uid mi (setups st)) (setups st) @ copies uuidv4 uid mi ?E)"
    unfolding st' all later_blocks by (simp add: s3 files_def)
  have same: "m = C \<longleftrightarrow> mi = c"
  proof
    assume "m = C"
    with mi car(3) show "mi = c" by simp
  next
    assume "mi = c"
    with mi car(3) have "field m ''id'' = field C ''id''" by simp
    from same_id_same_record[OF ids(1) m(2) car(1) this] show "m = C" .
  qed
  have cp: "copies uuidv4 uid mi ?E =
      map (\<lambda>(i, e). set_field ''carId'' (Some (JStr mi)) (fresh_copy (uuidv4 i) uid e)) (enumerate 0 ?E)"
    by (simp add: copies_def)
  have own: "referencing uid mi (copies uuidv4 uid mi ?E) = copies uuidv4 uid mi ?E"
    unfolding cp referencing_copies by simp
  have other: "referencing uid c (copies uuidv4 uid mi ?E) = []" if "mi \<noteq> c"
    unfolding cp referencing_copies using that by simp
  have fresh: "copies uuidv4 uid mi ?E = map (\<lambda>(n, e). fresh_copy (uuidv4 n) uid e) (enumerate 0 ?E)"
    if "mi = c"
    unfolding cp
  proof (rule map_cong[OF refl])
    fix p assume "p \<in> set (enumerate 0 ?E)"
    then have "fst p < length ?E" "?E ! fst p = snd p" by (auto simp: in_set_enumerate_eq)
    then have "snd p \<in> set ?E" using nth_mem by metis
    then have "field (snd p) ''carId'' = Some (JStr c)" by (simp add: referencing_def)
    from same_car_copy[OF this] that
    show "(case p of (i, e) \<Rightarrow> set_field ''carId'' (Some (JStr mi)) (fresh_copy (uuidv4 i) uid e))
        = (case p of (n, e) \<Rightarrow> fresh_copy (uuidv4 n) uid e)"
      by (simp add: case_prod_beta)
  qed
  have purged: "referencing uid mi (setups st') = copies uuidv4 uid mi ?E" if "?E \<noteq> []"
    unfolding setups using that by (simp add: referencing_append referencing_purged own)
  have kept: "referencing uid c (setups st') = ?E" if "m \<noteq> C"
  proof (cases "?E = []")
    case True
    then show ?thesis unfolding setups by simp
  next
    case False
    from that same have ne: "mi \<noteq> c" by simp
    show ?thesis unfolding setups using False
      by (simp add: referencing_append referencing_kept[OF ids(3) ne] other[OF ne])
  qed
  have count: "length (referencing uid c (setups st')) = length ?E"
  proof (cases "m = C")
    case False
    with kept show ?thesis by simp
  next
    case True
    with same have e: "mi = c" by simp
    show ?thesis
    proof (cases "?E = []")
      case True
      then show ?thesis unfolding setups by simp
    next
      case False
      from purged[OF False] e have "referencing uid c (setups st') = copies uuidv4 uid c ?E" by simp
      then show ?thesis by (simp add: copies_def)
    qed
  qed
  have ok: "\<exists>sm. res = Inr sm" if f: "\<not> includeSessions flags \<and> \<not> includeTrackNotes flags"
  proof -
    from f d(6,7) have n: "d_sessions d = None" "d_cornerNotes d = None" "d_trackNotes d = None"
      by simp_all
    from import_own_maintenance[OF _ c mi(2) d(8), of s3 js uuidv4 uid] s3(3) s1(1)
    obtain s6 where "import_maintenance js True uuidv4 uid (d_maintenance d) s3 = Inr s6" by auto
    then have "import_all js True uuidv4 extname uid d st = Inr s6"
      unfolding all s3(1) n
      by (simp add: and_then_def import_sessions_def import_track_notes_def)
    with post_import_files(2)[OF d(1,2), of js uuidv4 extname uid st] imp show ?thesis by auto
  qed
  from d(1,3,5) m(1) mi(1) cars setups count kept purged same fresh ok show ?thesis by blast
qed

theorem reimport_overwrite_round_trip_witness:
  "post_export ''u1'' [JStr ''c1''] [] only_setups paddock =
     Inr \<lparr>version = Some (JNum 1), data = Some
       \<lparr>d_cars = [ann_car], d_tracks = [], d_setups = Some [ann_setup], d_sessions = None,
        d_cornerNotes = None, d_trackNotes = None, d_maintenance = None\<rparr>\<rparr>
   \<and> post_import example_runtime new_ids ext_of ''u1''
       (Some \<lparr>version = Some (JNum 1), data = Some
          \<lparr>d_cars = [ann_car], d_tracks = [], d_setups = Some [ann_setup], d_sessions = None,
           d_cornerNotes = None, d_trackNotes = None, d_maintenance = None\<rparr>\<rparr>)
       (Some (JStr ''overwrite'')) paddock =
     (Inr \<lparr>carsImported = 1, carsSkipped = 0, tracksImported = 0, tracksSkipped = 0,
           setupsImported = 1, setupsSkipped = 0, sessionsImported = 0, sessionsSkipped = 0,
           cornerNotesImported = 0, trackNotesImported = 0, trackNotesSkipped = 0,
           maintenanceImported = 0, maintenanceSkipped = 0\<rparr>,
      paddock\<lparr>setups := [bob_setup,
                 [(''id'', JStr ''new0''), (''userId'', JStr ''u1''), (''carId'', JStr ''c1''),
                  (''trackId'', JStr ''t1''), (''name'', JStr ''dry'')]]\<rparr>)
   \<and> List.find (car_matches ann_car) (filter (owner_is ''u1'') (cars paddock)) = Some ann_car
   \<and> referencing ''u1'' ''c1'' (setups paddock) = [ann_setup]
   \<and> length (referencing ''u1'' ''c1'' [bob_setup,
                 [(''id'', JStr ''new0''), (''userId'', JStr ''u1''), (''carId'', JStr ''c1''),
                  (''trackId'', JStr ''t1''), (''name'', JStr ''dry'')]])
       = length (referencing ''u1'' ''c1'' (setups paddock))
   \<and> referencing ''u1'' ''c1'' [bob_setup,
                 [(''id'', JStr ''new0''), (''userId'', JStr ''u1''), (''carId'', JStr ''c1''),
                  (''trackId'', JStr ''t1''), (''name'', JStr ''dry'')]]
       = copies new_ids ''u1'' ''c1'' (referencing ''u1'' ''c1'' (setups paddock))"
proof -
  let ?env = "\<lparr>version = Some (JNum 1), data = Some
       \<lparr>d_cars = [ann_car], d_tracks = [], d_setups = Some [ann_setup], d_sessions = None,
        d_cornerNotes = None, d_trackNotes = None, d_maintenance = None\<rparr>\<rparr>"
  let ?new = "[bob_setup,
                 [(''id'', JStr ''new0''), (''userId'', JStr ''u1''), (''carId'', JStr ''c1''),
                  (''trackId'', JStr ''t1''), (''name'', JStr ''dry'')]]"
  have e: "post_export ''u1'' [JStr ''c1''] [] only_setups paddock = Inr ?env"
    by code_simp
  have i: "post_import example_runtime new_ids ext_of ''u1'' (Some ?env) (Some (JStr ''overwrite'')) paddock =
     (Inr \<lparr>carsImported = 1, carsSkipped = 0, tracksImported = 0, tracksSkipped = 0,
           setupsImported = 1, setupsSkipped = 0, sessionsImported = 0, sessionsSkipped = 0,
           cornerNotesImported = 0, trackNotesImported = 0, trackNotesSkipped = 0,
           maintenanceImported = 0, maintenanceSkipped = 0\<rparr>,
      paddock\<lparr>setups := ?new\<rparr>)"
    by code_simp
  have f: "List.find (car_matches ann_car) (filter (owner_is ''u1'') (cars paddock)) = Some ann_car"
    by code_simp
  have E: "referencing ''u1'' ''c1'' (setups paddock) = [ann_setup]" by code_simp
  have h: "ann_car \<in> set (cars paddock)" "owner_is ''u1'' ann_car"
    "field ann_car ''id'' = Some (JStr ''c1'')" "''c1'' \<noteq> ''__proto__''"
    "unique_ids (cars paddock)" "string_ids (cars paddock)" "unique_ids (setups paddock)"
    "primitive (field ann_car ''name'')" "primitive (field ann_car ''manufacturer'')"
    "primitive (field ann_car ''series'')" "includeSetups only_setups"
    by code_simp+
  have p: "\<forall>e \<in> set (referencing ''u1'' ''c1'' (setups paddock)). plain_reference (field e ''trackId'')"
    unfolding E by code_simp
  from reimport_overwrite_round_trip[OF h(1-10) p e h(11) i] obtain m mi where
    r: "List.find (car_matches ann_car) (filter (owner_is ''u1'') (cars paddock)) = Some m"
       "field m ''id'' = Some (JStr mi)"
       "length (referencing ''u1'' ''c1'' (setups (paddock\<lparr>setups := ?new\<rparr>)))
          = length (referencing ''u1'' ''c1'' (setups paddock))"
       "referencing ''u1'' ''c1'' (setups paddock) \<noteq> [] \<longrightarrow>
          referencing ''u1'' mi (setups (paddock\<lparr>setups := ?new\<rparr>))
            = copies new_ids ''u1'' mi (referencing ''u1'' ''c1'' (setups paddock))"
    by blast
  from r(1) f have "m = ann_car" by simp
  with r(2) h(3) have "mi = ''c1''" by simp
  with r(3,4) E have "length (referencing ''u1'' ''c1'' ?new) = length (referencing ''u1'' ''c1'' (setups paddock))"
    and "referencing ''u1'' ''c1'' ?new = copies new_ids ''u1'' ''c1'' (referencing ''u1'' ''c1'' (setups paddock))"
    by simp_all
  with e i f E show ?thesis by simp
qed

text \<open>
  The counterexample to C8: Ann has the cars \<open>c0\<close> and \<open>c1\<close> with the same name,
  manufacturer and series. She exports \<open>c1\<close> with its setup and imports the envelope in
  overwrite mode. The import matches \<open>c0\<close>: the setup \<open>s1\<close> of \<open>c1\<close> is not purged, and
  its copy names \<open>c0\<close>.
\<close>

theorem reimport_twin_car_counterexample:
  "post_export ''u1'' [JStr ''c1''] [] only_setups twin_paddock =
     Inr \<lparr>version = Some (JNum 1), data = Some
       \<lparr>d_cars = [ann_car], d_tracks = [], d_setups = Some [ann_setup], d_sessions = None,
        d_cornerNotes = None, d_trackNotes = None, d_maintenance = None\<rparr>\<rparr>
   \<and> post_import example_runtime new_ids ext_of ''u1''
       (Some \<lparr>version = Some (JNum 1), data = Some
          \<lparr>d_cars = [ann_car], d_tracks = [], d_setups = Some [ann_setup], d_sessions = None,
           d_cornerNotes = None, d_trackNotes = None, d_maintenance = None\<rparr>\<rparr>)
       (Some (JStr ''overwrite'')) twin_paddock =
     (Inr \<lparr>carsImported = 1, carsSkipped = 0, tracksImported = 0, tracksSkipped = 0,
           setupsImported = 1, setupsSkipped = 0, sessionsImported = 0, sessionsSkipped = 0,
           cornerNotesImported = 0, trackNotesImported = 0, trackNotesSkipped = 0,
           maintenanceImported = 0, maintenanceSkipped = 0\<rparr>,
      twin_paddock\<lparr>setups := [ann_setup, bob_setup,
                 [(''id'', JStr ''new0''), (''userId'', JStr ''u1''), (''carId'', JStr ''c0''),
                  (''trackId'', JStr ''t1''), (''name'', JStr ''dry'')]]\<rparr>)
   \<and> List.find (car_matches ann_car) (filter (owner_is ''u1'') (cars twin_paddock)) = Some twin_car
   \<and> twin_car \<noteq> ann_car"
  by code_simp


end
